(* ===== verification/Prelude.thy ===== *)
theory Prelude
  imports Main "HOL-Library.Word" "HOL-Library.AList" "HOL-Library.Monad_Syntax"
    "HOL-Library.While_Combinator" "HOL-Library.Code_Target_Nat"
begin

text \<open>
  Shared vocabulary of the development: the machine types, Rust's saturating and
  checked arithmetic, and the containers of the Rust standard library the node
  uses.  A \<^verbatim>\<open>HashMap\<close> is an association list with distinct keys (the list
  order stands for the unspecified iteration order), a \<^verbatim>\<open>BTreeSet\<close> is a strictly
  sorted list, a \<^verbatim>\<open>BinaryHeap\<close> popped at its minimum is a sorted list.  Each
  container is specified by a locale and the list operations interpret it.
  A panic of the Rust code is the value \<^term>\<open>None\<close> of the option monad.
\<close>

section \<open>Machine types\<close>

type_synonym u8 = "8 word"
type_synonym u64 = "64 word"
type_synonym bytes = "8 word list"

text \<open>A \<^verbatim>\<open>UInt256\<close> is a hash or an identifier: the code compares such values (the order
  of the big-endian bytes is the order of the numbers) and never computes with them.\<close>

datatype uint256 = UInt256 (uint256_value: nat)

instantiation uint256 :: linorder
begin

definition less_eq_uint256 :: "uint256 \<Rightarrow> uint256 \<Rightarrow> bool" where
  "less_eq_uint256 a b \<longleftrightarrow> uint256_value a \<le> uint256_value b"

definition less_uint256 :: "uint256 \<Rightarrow> uint256 \<Rightarrow> bool" where
  "less_uint256 a b \<longleftrightarrow> uint256_value a < uint256_value b"

instance
  by standard (auto simp: less_eq_uint256_def less_uint256_def uint256.expand)

end

definition u32_max :: nat where
  "u32_max = 4294967295"

definition saturating_add_u32 :: "nat \<Rightarrow> nat \<Rightarrow> nat" where
  "saturating_add_u32 a b = min (a + b) u32_max"

definition saturating_mul_u32 :: "nat \<Rightarrow> nat \<Rightarrow> nat" where
  "saturating_mul_u32 a b = min (a * b) u32_max"

definition checked_sub :: "nat \<Rightarrow> nat \<Rightarrow> nat option" where
  "checked_sub a b = (if b \<le> a then Some (a - b) else None)"

lemma saturating_add_le [simp]: "saturating_add_u32 a b \<le> u32_max"
  by (simp add: saturating_add_u32_def)

lemma saturating_add_exact: "a + b \<le> u32_max \<Longrightarrow> saturating_add_u32 a b = a + b"
  by (simp add: saturating_add_u32_def)

section \<open>The option monad: what survives a run\<close>

text \<open>Evaluation by rewriting takes pairs apart with projections, so that it never works
  under a binder.\<close>

lemma case_prod_let [code_unfold]: "case_prod f p = (let q = p in f (fst q) (snd q))"
  by (simp add: case_prod_beta)

lemma bind_case [code_unfold]: "Option.bind m f = (case m of None \<Rightarrow> None | Some x \<Rightarrow> f x)"
  by (cases m) simp_all

lemma bind_eq_SomeE:
  assumes "Option.bind m f = Some y"
  obtains x where "m = Some x" "f x = Some y"
  using assms by (cases m) auto

definition assert_opt :: "bool \<Rightarrow> unit option" where
  "assert_opt b = (if b then Some () else None)"

lemma assert_opt_Some [simp]: "assert_opt b = Some u \<longleftrightarrow> b"
  by (simp add: assert_opt_def)

lemma assert_opt_True [simp]: "assert_opt True = Some ()"
  by (simp add: assert_opt_def)

section \<open>HashMap\<close>

type_synonym ('k, 'v) hash_map = "('k \<times> 'v) list"

definition hm_get :: "('k, 'v) hash_map \<Rightarrow> 'k \<Rightarrow> 'v option" where
  "hm_get m k = map_of m k"

definition hm_insert :: "'k \<Rightarrow> 'v \<Rightarrow> ('k, 'v) hash_map \<Rightarrow> ('k, 'v) hash_map" where
  "hm_insert k v m = AList.update k v m"

definition hm_retain :: "('k \<Rightarrow> bool) \<Rightarrow> ('k, 'v) hash_map \<Rightarrow> ('k, 'v) hash_map" where
  "hm_retain P m = filter (\<lambda>e. P (fst e)) m"

definition hm_contains :: "('k, 'v) hash_map \<Rightarrow> 'k \<Rightarrow> bool" where
  "hm_contains m k = (hm_get m k \<noteq> None)"

definition hm_invar :: "('k, 'v) hash_map \<Rightarrow> bool" where
  "hm_invar m = distinct (map fst m)"

text \<open>\<^verbatim>\<open>*map.entry(k).or_insert(0) += w\<close>\<close>

definition hm_add :: "'k \<Rightarrow> nat \<Rightarrow> ('k, nat) hash_map \<Rightarrow> ('k, nat) hash_map" where
  "hm_add k w m = hm_insert k (case hm_get m k of None \<Rightarrow> w | Some v \<Rightarrow> v + w) m"

definition hm_weight :: "('k, nat) hash_map \<Rightarrow> 'k \<Rightarrow> nat" where
  "hm_weight m k = (case hm_get m k of None \<Rightarrow> 0 | Some v \<Rightarrow> v)"

locale hash_map_spec =
  fixes get :: "'m \<Rightarrow> 'k \<Rightarrow> 'v option"
    and ins :: "'k \<Rightarrow> 'v \<Rightarrow> 'm \<Rightarrow> 'm"
    and retain :: "('k \<Rightarrow> bool) \<Rightarrow> 'm \<Rightarrow> 'm"
    and invar :: "'m \<Rightarrow> bool"
  assumes get_insert: "get (ins k v m) k' = (if k = k' then Some v else get m k')"
    and get_retain: "get (retain P m) k = (if P k then get m k else None)"
    and invar_insert: "invar m \<Longrightarrow> invar (ins k v m)"
    and invar_retain: "invar m \<Longrightarrow> invar (retain P m)"
begin

lemma get_insert_same: "get (ins k v m) k = Some v"
  by (simp add: get_insert)

lemma get_insert_other: "k \<noteq> k' \<Longrightarrow> get (ins k v m) k' = get m k'"
  by (simp add: get_insert)

lemma get_insert_twice: "get (ins k v (ins k w m)) k' = get (ins k v m) k'"
  by (simp add: get_insert)

lemma all_values_insert:
  "(\<forall>k' v'. get (ins k v m) k' = Some v' \<longrightarrow> Q k' v') \<longleftrightarrow>
   Q k v \<and> (\<forall>k' v'. k' \<noteq> k \<longrightarrow> get m k' = Some v' \<longrightarrow> Q k' v')"
  by (auto simp: get_insert)

lemma all_values_retain:
  "\<forall>k v. get m k = Some v \<longrightarrow> Q k v \<Longrightarrow> get (retain P m) k = Some v \<Longrightarrow> Q k v"
  by (auto simp: get_retain split: if_splits)

end

lemma map_of_filter_key:
  "map_of (filter (\<lambda>e. P (fst e)) m) k = (if P k then map_of m k else None)"
  by (induction m) auto

interpretation hm: hash_map_spec hm_get hm_insert hm_retain hm_invar
proof (unfold_locales, goal_cases)
  case (1 k v m k')
  show ?case by (simp add: hm_get_def hm_insert_def update_conv)
next
  case (2 P m k)
  show ?case by (simp add: hm_get_def hm_retain_def map_of_filter_key)
next
  case (3 m k v)
  then show ?case by (simp add: hm_invar_def hm_insert_def distinct_update)
next
  case (4 m P)
  then show ?case
    by (auto simp: hm_invar_def hm_retain_def distinct_map intro: inj_on_subset)
qed

lemma hm_get_empty [simp]: "hm_get [] k = None"
  by (simp add: hm_get_def)

lemma hm_get_SomeD: "hm_get m k = Some v \<Longrightarrow> (k, v) \<in> set m"
  by (simp add: hm_get_def map_of_SomeD)

lemma hm_get_mem: "hm_invar m \<Longrightarrow> (k, v) \<in> set m \<Longrightarrow> hm_get m k = Some v"
  by (simp add: hm_invar_def hm_get_def)

lemma hm_weight_empty [simp]: "hm_weight [] k = 0"
  by (simp add: hm_weight_def)

lemma hm_weight_add:
  "hm_weight (hm_add k w m) k' = (if k = k' then hm_weight m k + w else hm_weight m k')"
  by (auto simp: hm_weight_def hm_add_def hm.get_insert split: option.splits)

lemma hm_invar_add [simp]: "hm_invar m \<Longrightarrow> hm_invar (hm_add k w m)"
  by (simp add: hm_add_def hm.invar_insert)

lemma hm_weight_mem: "hm_invar m \<Longrightarrow> (k, v) \<in> set m \<Longrightarrow> hm_weight m k = v"
  by (simp add: hm_weight_def hm_get_mem)

end
