(* ===== verification/Shard_Ident.thy ===== *)
theory Shard_Ident
  imports Prelude
begin

text \<open>
  Shard identifiers of \<^verbatim>\<open>src/block/src/shard.rs\<close>: a workchain and a 64-bit prefix
  that carries its own length as a terminating one bit.
\<close>

section \<open>Data\<close>

record shard_ident =
  workchain_id :: int
  prefix :: u64

record block_id_ext =
  shard_id :: shard_ident
  seq_no :: nat
  root_hash :: uint256
  file_hash :: uint256

end
