(* ===== verification/Simplex_Block.thy ===== *)
theory Simplex_Block
  imports Shard_Ident
begin

text \<open>
  The index newtypes, candidate identifiers, candidate bodies and parents of
  \<^verbatim>\<open>src/node/simplex/src/block.rs\<close>.  Slot, window and validator indices are
  \<^verbatim>\<open>u32\<close> newtypes in the code; they are natural numbers here.  The subtractions
  the code saturates are the truncating subtraction of natural numbers.
\<close>

section \<open>Indices\<close>

type_synonym slot_index = nat
type_synonym window_index = nat
type_synonym validator_index = nat

definition slot_window_index :: "slot_index \<Rightarrow> nat \<Rightarrow> window_index" where
  "slot_window_index slot slots_per_window = slot div slots_per_window"

definition offset_in_window :: "slot_index \<Rightarrow> nat \<Rightarrow> nat" where
  "offset_in_window slot slots_per_window = slot mod slots_per_window"

definition is_first_in_window :: "slot_index \<Rightarrow> nat \<Rightarrow> bool" where
  "is_first_in_window slot slots_per_window = (offset_in_window slot slots_per_window = 0)"

definition is_last_in_window :: "slot_index \<Rightarrow> nat \<Rightarrow> bool" where
  "is_last_in_window slot slots_per_window =
     (offset_in_window slot slots_per_window = slots_per_window - 1)"

definition slot_window_start :: "slot_index \<Rightarrow> nat \<Rightarrow> slot_index" where
  "slot_window_start slot slots_per_window = (slot div slots_per_window) * slots_per_window"

definition first_slot :: "window_index \<Rightarrow> nat \<Rightarrow> slot_index" where
  "first_slot w slots_per_window = w * slots_per_window"

definition last_slot :: "window_index \<Rightarrow> nat \<Rightarrow> slot_index" where
  "last_slot w slots_per_window = w * slots_per_window + slots_per_window - 1"

definition window_start :: "window_index \<Rightarrow> nat \<Rightarrow> slot_index" where
  "window_start w slots_per_window = first_slot w slots_per_window"

definition is_valid_validator :: "validator_index \<Rightarrow> nat \<Rightarrow> bool" where
  "is_valid_validator idx num_validators = (idx < num_validators)"

definition is_out_of_bounds :: "validator_index \<Rightarrow> nat \<Rightarrow> bool" where
  "is_out_of_bounds idx num_validators = (num_validators \<le> idx)"

section \<open>Candidate identifiers and bodies\<close>

record raw_candidate_id =
  rci_slot :: slot_index
  rci_hash :: uint256

record candidate_id =
  ci_slot :: slot_index
  ci_hash :: uint256
  ci_block :: block_id_ext

definition candidate_id_from_raw :: "raw_candidate_id \<Rightarrow> block_id_ext \<Rightarrow> candidate_id" where
  "candidate_id_from_raw raw block =
     \<lparr>ci_slot = rci_slot raw, ci_hash = rci_hash raw, ci_block = block\<rparr>"

definition candidate_id_to_raw :: "candidate_id \<Rightarrow> raw_candidate_id" where
  "candidate_id_to_raw i = \<lparr>rci_slot = ci_slot i, rci_hash = ci_hash i\<rparr>"

record block_candidate =
  bc_id :: block_id_ext
  bc_collated_file_hash :: uint256
  bc_data :: bytes
  bc_collated_data :: bytes
  bc_creator :: bytes

datatype candidate_block_data = Empty block_id_ext | NonEmpty block_candidate

definition cbd_is_empty :: "candidate_block_data \<Rightarrow> bool" where
  "cbd_is_empty d = (case d of Empty _ \<Rightarrow> True | NonEmpty _ \<Rightarrow> False)"

definition cbd_block_id :: "candidate_block_data \<Rightarrow> block_id_ext" where
  "cbd_block_id d = (case d of Empty i \<Rightarrow> i | NonEmpty b \<Rightarrow> bc_id b)"

definition cbd_as_block :: "candidate_block_data \<Rightarrow> block_candidate option" where
  "cbd_as_block d = (case d of Empty _ \<Rightarrow> None | NonEmpty b \<Rightarrow> Some b)"

record raw_candidate =
  rc_id :: raw_candidate_id
  rc_parent_id :: "raw_candidate_id option"
  rc_leader :: validator_index
  rc_block :: candidate_block_data
  rc_signature :: bytes

record candidate =
  cand_id :: candidate_id
  cand_parent_id :: "candidate_id option"
  cand_leader :: validator_index
  cand_block :: "block_candidate option"
  cand_signature :: bytes

text \<open>\<^verbatim>\<open>Candidate::new\<close> asserts its invariant in debug builds; a failed assertion is
  \<^term>\<open>None\<close>.\<close>

definition candidate_new ::
  "candidate_id \<Rightarrow> candidate_id option \<Rightarrow> validator_index \<Rightarrow> block_candidate option \<Rightarrow> bytes
   \<Rightarrow> candidate option" where
  "candidate_new i parent leader block sig = do {
     assert_opt (case block of Some b \<Rightarrow> bc_id b = ci_block i | None \<Rightarrow> parent \<noteq> None);
     Some \<lparr>cand_id = i, cand_parent_id = parent, cand_leader = leader,
           cand_block = block, cand_signature = sig\<rparr> }"

definition candidate_is_empty :: "candidate \<Rightarrow> bool" where
  "candidate_is_empty c = (cand_block c = None)"

definition candidate_to_raw :: "candidate \<Rightarrow> raw_candidate" where
  "candidate_to_raw c =
     \<lparr>rc_id = candidate_id_to_raw (cand_id c),
      rc_parent_id = map_option candidate_id_to_raw (cand_parent_id c),
      rc_leader = cand_leader c,
      rc_block = (case cand_block c of Some b \<Rightarrow> NonEmpty b | None \<Rightarrow> Empty (ci_block (cand_id c))),
      rc_signature = cand_signature c\<rparr>"

section \<open>Parents\<close>

record candidate_parent_info =
  cpi_slot :: slot_index
  cpi_hash :: uint256

type_synonym candidate_parent = "candidate_parent_info option"

section \<open>Window arithmetic\<close>

lemma offset_less [simp]: "0 < spw \<Longrightarrow> offset_in_window s spw < spw"
  by (simp add: offset_in_window_def)

lemma window_start_plus_offset:
  "window_start (slot_window_index s spw) spw + offset_in_window s spw = s"
  by (simp add: window_start_def first_slot_def slot_window_index_def offset_in_window_def)

lemma window_index_of_start:
  "off < spw \<Longrightarrow> slot_window_index (window_start w spw + off) spw = w"
  by (simp add: window_start_def first_slot_def slot_window_index_def)

lemma offset_of_start:
  "off < spw \<Longrightarrow> offset_in_window (window_start w spw + off) spw = off"
  by (simp add: window_start_def first_slot_def offset_in_window_def)

lemma window_index_mono: "s \<le> t \<Longrightarrow> slot_window_index s spw \<le> slot_window_index t spw"
  by (simp add: slot_window_index_def div_le_mono)

lemma slot_eqI:
  "slot_window_index s spw = slot_window_index t spw \<Longrightarrow>
   offset_in_window s spw = offset_in_window t spw \<Longrightarrow> s = t"
  by (metis window_start_plus_offset)

lemma window_bounds:
  assumes "0 < spw"
  shows "window_start (slot_window_index s spw) spw \<le> s"
    and "s < window_start (Suc (slot_window_index s spw)) spw"
  using window_start_plus_offset [of s spw] offset_less [OF assms, of s]
  by (auto simp: window_start_def first_slot_def)

lemma last_slot_first:
  "0 < spw \<Longrightarrow> last_slot w spw = window_start w spw + (spw - 1)"
  by (simp add: last_slot_def window_start_def first_slot_def)

end
