(* ===== verification/Simplex_Session.thy ===== *)
theory Simplex_Session
  imports Complex_Main Simplex_Block
begin

text \<open>
  Session configuration: \<^verbatim>\<open>SessionOptions\<close> of \<^verbatim>\<open>src/node/simplex/src/lib.rs\<close>,
  \<^verbatim>\<open>SessionDescription\<close> of \<^verbatim>\<open>session_description.rs\<close> and the thresholds of
  \<^verbatim>\<open>utils.rs\<close>.  Durations and instants count nanoseconds.  Validator weights are
  \<^verbatim>\<open>u64\<close> in the code and natural numbers here; the development shows that every
  weight the state machine accumulates is at most the total weight.  A floating
  point option is either a finite rational or a non-finite value.
\<close>

section \<open>Session options\<close>

type_synonym duration = nat
type_synonym system_time = nat

datatype f64 = Finite rat | NonFinite

datatype prometheus_labels = ShardOnly | ShardAndSessionId

definition from_secs :: "nat \<Rightarrow> duration" where
  "from_secs s = s * 1000000000"

definition from_millis :: "nat \<Rightarrow> duration" where
  "from_millis s = s * 1000000"

record session_options =
  proto_version :: nat
  opt_slots_per_leader_window :: nat
  target_rate :: duration
  min_block_interval :: duration
  opt_first_block_timeout :: duration
  max_block_size :: nat
  max_collated_data_size :: nat
  use_callback_thread :: bool
  validation_retry_attempts :: nat
  validation_retry_timeout :: duration
  standstill_timeout :: duration
  empty_block_mc_lag_threshold :: "nat option"
  wait_for_db_init :: bool
  use_quic :: bool
  enable_observers :: bool
  health_alert_cooldown :: duration
  health_stall_warning_secs :: nat
  health_stall_error_secs :: nat
  first_block_timeout_multiplier :: f64
  first_block_timeout_cap :: duration
  candidate_resolve_timeout :: duration
  candidate_resolve_timeout_multiplier :: f64
  candidate_resolve_timeout_cap :: duration
  candidate_resolve_cooldown :: duration
  standstill_max_egress_bytes_per_s :: nat
  opt_max_leader_window_desync :: nat
  bad_signature_ban_duration :: duration
  candidate_resolve_rate_limit :: nat
  no_empty_blocks_on_error_timeout :: duration
  prometheus_labels :: prometheus_labels

text \<open>The literal \<^verbatim>\<open>1.2\<close> is the double nearest to it.\<close>

definition f64_1_2 :: f64 where
  "f64_1_2 = Finite (5404319552844595 / 4503599627370496)"

definition default_options :: session_options where
  "default_options =
     \<lparr>proto_version = 0, opt_slots_per_leader_window = 1, target_rate = from_secs 1,
      min_block_interval = from_secs 0, opt_first_block_timeout = from_secs 3,
      max_block_size = 4194304, max_collated_data_size = 4194304,
      use_callback_thread = True, validation_retry_attempts = 0,
      validation_retry_timeout = from_secs 1, standstill_timeout = from_secs 10,
      empty_block_mc_lag_threshold = None, wait_for_db_init = False, use_quic = False,
      enable_observers = False, health_alert_cooldown = from_secs 30,
      health_stall_warning_secs = 15, health_stall_error_secs = 60,
      first_block_timeout_multiplier = f64_1_2, first_block_timeout_cap = from_secs 100,
      candidate_resolve_timeout = from_secs 1,
      candidate_resolve_timeout_multiplier = f64_1_2,
      candidate_resolve_timeout_cap = from_secs 10,
      candidate_resolve_cooldown = from_millis 10,
      standstill_max_egress_bytes_per_s = 6553600, opt_max_leader_window_desync = 250,
      bad_signature_ban_duration = from_secs 5, candidate_resolve_rate_limit = 10,
      no_empty_blocks_on_error_timeout = from_secs 15, prometheus_labels = ShardOnly\<rparr>"

definition f64_below_one_or_nonfinite :: "f64 \<Rightarrow> bool" where
  "f64_below_one_or_nonfinite x = (case x of Finite r \<Rightarrow> r < 1 | NonFinite \<Rightarrow> True)"

definition validate :: "session_options \<Rightarrow> string + unit" where
  "validate opts =
    (if opt_slots_per_leader_window opts = 0 then Inl ''slots_per_leader_window must be >= 1''
     else if target_rate opts = 0 then Inl ''target_rate must be > 0''
     else if max_block_size opts = 0 then Inl ''max_block_size must be > 0''
     else if max_collated_data_size opts = 0 then Inl ''max_collated_data_size must be > 0''
     else if opt_first_block_timeout opts = 0 then Inl ''first_block_timeout must be > 0''
     else if health_alert_cooldown opts = 0 then Inl ''health_alert_cooldown must be > 0''
     else if health_stall_warning_secs opts = 0 then Inl ''health_stall_warning_secs must be > 0''
     else if health_stall_error_secs opts < health_stall_warning_secs opts
       then Inl ''health_stall_error_secs must be >= health_stall_warning_secs''
     else if f64_below_one_or_nonfinite (first_block_timeout_multiplier opts)
       then Inl ''first_block_timeout_multiplier must be finite and >= 1.0''
     else if first_block_timeout_cap opts = 0 then Inl ''first_block_timeout_cap must be > 0''
     else if candidate_resolve_timeout opts = 0 then Inl ''candidate_resolve_timeout must be > 0''
     else if f64_below_one_or_nonfinite (candidate_resolve_timeout_multiplier opts)
       then Inl ''candidate_resolve_timeout_multiplier must be finite and >= 1.0''
     else if candidate_resolve_timeout_cap opts = 0
       then Inl ''candidate_resolve_timeout_cap must be > 0''
     else if candidate_resolve_cooldown opts = 0 then Inl ''candidate_resolve_cooldown must be > 0''
     else if bad_signature_ban_duration opts = 0 then Inl ''bad_signature_ban_duration must be > 0''
     else Inr ())"

definition validate_for_shard :: "session_options \<Rightarrow> shard_ident \<Rightarrow> string + unit" where
  "validate_for_shard opts sh =
    (case validate opts of
       Inl e \<Rightarrow> Inl e
     | Inr _ \<Rightarrow>
         if workchain_id sh = - 1 \<and> empty_block_mc_lag_threshold opts \<noteq> None
         then Inl ''empty_block_mc_lag_threshold must be None for masterchain sessions''
         else Inr ())"

section \<open>Thresholds\<close>

type_synonym validator_weight = nat

definition threshold_66 :: "validator_weight \<Rightarrow> validator_weight" where
  "threshold_66 total_weight = (if total_weight = 0 then 0 else (total_weight * 2) div 3 + 1)"

definition threshold_33 :: "validator_weight \<Rightarrow> validator_weight" where
  "threshold_33 total_weight = (if total_weight = 0 then 0 else total_weight div 3 + 1)"

section \<open>Session description\<close>

text \<open>Public keys are opaque byte strings; \<^verbatim>\<open>PublicKey::id\<close> is the parameter
  \<open>key_id\<close>.\<close>

record source =
  src_id :: uint256
  src_public_key :: bytes
  src_adnl_id :: uint256
  src_weight :: validator_weight

record session_node =
  node_public_key :: bytes
  node_adnl_id :: uint256
  node_weight :: validator_weight

text \<open>\<open>system_now\<close> is the reading of the operating system clock during the operation
  at hand; \<open>mul_f64\<close> is the floating point product \<^verbatim>\<open>Duration::mul_f64\<close>.\<close>

record session_description =
  session_id :: uint256
  options :: session_options
  initial_block_seqno :: nat
  sources :: "source list"
  rev_sources :: "(uint256, validator_index) hash_map"
  total_weight :: validator_weight
  self_idx :: validator_index
  shard :: shard_ident
  session_creation_time :: system_time
  replay_time_us :: nat
  system_now :: system_time
  mul_f64 :: "duration \<Rightarrow> f64 \<Rightarrow> duration"

definition source_of_node :: "(bytes \<Rightarrow> uint256) \<Rightarrow> session_node \<Rightarrow> source" where
  "source_of_node key_id node =
     \<lparr>src_id = key_id (node_public_key node), src_public_key = node_public_key node,
      src_adnl_id = node_adnl_id node, src_weight = node_weight node\<rparr>"

text \<open>The loop over the nodes: sources pushed, reverse index filled, weights summed.\<close>

fun init_sources ::
  "(bytes \<Rightarrow> uint256) \<Rightarrow> nat \<Rightarrow> session_node list \<Rightarrow>
   source list \<times> (uint256, validator_index) hash_map \<times> validator_weight \<Rightarrow>
   source list \<times> (uint256, validator_index) hash_map \<times> validator_weight" where
  "init_sources key_id node_index [] acc = acc"
| "init_sources key_id node_index (node # nodes) (srcs, revs, tot) =
     (let source = source_of_node key_id node
      in init_sources key_id (Suc node_index) nodes
           (srcs @ [source], hm_insert (src_id source) node_index revs, tot + node_weight node))"

definition session_description_new ::
  "(bytes \<Rightarrow> uint256) \<Rightarrow> (duration \<Rightarrow> f64 \<Rightarrow> duration) \<Rightarrow> session_options \<Rightarrow> uint256 \<Rightarrow> nat \<Rightarrow>
   session_node list \<Rightarrow> uint256 \<Rightarrow> shard_ident \<Rightarrow> system_time \<Rightarrow> system_time \<Rightarrow>
   session_description option" where
  "session_description_new key_id mulf opts sid seqno nodes local_id shard_i ctime now_t =
    (let (srcs, revs, tot) = init_sources key_id 0 nodes ([], [], 0)
     in case hm_get revs local_id of
          None \<Rightarrow> None
        | Some idx \<Rightarrow>
            Some \<lparr>session_id = sid, options = opts, initial_block_seqno = seqno,
                  sources = srcs, rev_sources = revs, total_weight = tot, self_idx = idx,
                  shard = shard_i, session_creation_time = ctime, replay_time_us = 0,
                  system_now = now_t, mul_f64 = mulf\<rparr>)"

definition get_source_public_key :: "session_description \<Rightarrow> validator_index \<Rightarrow> bytes" where
  "get_source_public_key desc i = src_public_key (sources desc ! i)"

definition get_source_index :: "session_description \<Rightarrow> uint256 \<Rightarrow> validator_index option" where
  "get_source_index desc key_hash = hm_get (rev_sources desc) key_hash"

definition get_node_weight :: "session_description \<Rightarrow> validator_index \<Rightarrow> validator_weight" where
  "get_node_weight desc i = src_weight (sources desc ! i)"

definition get_total_nodes :: "session_description \<Rightarrow> nat" where
  "get_total_nodes desc = length (sources desc)"

definition get_threshold_66 :: "session_description \<Rightarrow> validator_weight" where
  "get_threshold_66 desc = threshold_66 (total_weight desc)"

definition get_threshold_33 :: "session_description \<Rightarrow> validator_weight" where
  "get_threshold_33 desc = threshold_33 (total_weight desc)"

definition get_window_idx :: "session_description \<Rightarrow> slot_index \<Rightarrow> window_index" where
  "get_window_idx desc slot = slot_window_index slot (opt_slots_per_leader_window (options desc))"

definition get_slot_offset_in_window :: "session_description \<Rightarrow> slot_index \<Rightarrow> nat" where
  "get_slot_offset_in_window desc slot =
     offset_in_window slot (opt_slots_per_leader_window (options desc))"

definition get_leader :: "session_description \<Rightarrow> slot_index \<Rightarrow> validator_index" where
  "get_leader desc slot = get_window_idx desc slot mod length (sources desc)"

definition set_time :: "system_time \<Rightarrow> session_description \<Rightarrow> session_description" where
  "set_time t desc =
     (let micros = t div 1000;
          micros_u64 = (if micros < 2 ^ 64 then micros else 2 ^ 64 - 2)
      in desc\<lparr>replay_time_us := min (micros_u64 + 1) (2 ^ 64 - 1)\<rparr>)"

definition get_time :: "session_description \<Rightarrow> system_time" where
  "get_time desc =
     (let stored = replay_time_us desc
      in if stored = 0 then system_now desc else (stored - 1) * 1000)"

definition is_in_future :: "session_description \<Rightarrow> system_time \<Rightarrow> bool" where
  "is_in_future desc t = (get_time desc < t)"

section \<open>What a constructed description satisfies\<close>

definition wf_desc :: "session_description \<Rightarrow> bool" where
  "wf_desc desc \<longleftrightarrow>
     total_weight desc = sum_list (map src_weight (sources desc)) \<and>
     self_idx desc < length (sources desc)"

lemma init_sources_spec:
  "init_sources key_id n nodes (srcs, revs, tot) = (srcs', revs', tot') \<Longrightarrow>
   n = length srcs \<Longrightarrow> (\<forall>k i. hm_get revs k = Some i \<longrightarrow> i < n) \<Longrightarrow>
   srcs' = srcs @ map (source_of_node key_id) nodes \<and>
   tot' = tot + sum_list (map node_weight nodes) \<and>
   (\<forall>k i. hm_get revs' k = Some i \<longrightarrow> i < length srcs')"
proof (induction nodes arbitrary: n srcs revs tot)
  case Nil
  then show ?case by auto
next
  case (Cons node nodes)
  define s where "s = source_of_node key_id node"
  have step: "init_sources key_id (Suc n) nodes
      (srcs @ [s], hm_insert (src_id s) n revs, tot + node_weight node) = (srcs', revs', tot')"
    using Cons.prems(1) by (simp add: s_def Let_def)
  have "\<forall>k i. hm_get (hm_insert (src_id s) n revs) k = Some i \<longrightarrow> i < Suc n"
    using Cons.prems(3) by (auto simp: hm.get_insert less_Suc_eq)
  from Cons.IH [OF step _ this] show ?case
    using Cons.prems(2) by (auto simp: s_def)
qed

lemma session_description_new_wf:
  assumes "session_description_new key_id mulf opts sid seqno nodes lid sh ct nt = Some desc"
  shows "wf_desc desc" and "sources desc = map (source_of_node key_id) nodes"
    and "options desc = opts"
proof -
  obtain srcs revs tot where
    i: "init_sources key_id 0 nodes ([], [], 0) = (srcs, revs, tot)"
    by (metis prod_cases3)
  from init_sources_spec [OF i]
  have s: "srcs = map (source_of_node key_id) nodes" "tot = sum_list (map node_weight nodes)"
      "\<forall>k i. hm_get revs k = Some i \<longrightarrow> i < length srcs"
    by auto
  from assms i s show "wf_desc desc" "sources desc = map (source_of_node key_id) nodes"
      "options desc = opts"
    by (auto simp: session_description_new_def wf_desc_def source_of_node_def comp_def
        split: option.splits)
qed

section \<open>Threshold arithmetic\<close>

lemma threshold_66_le: "threshold_66 t \<le> t"
  unfolding threshold_66_def by presburger

lemma threshold_66_strict: "0 < t \<Longrightarrow> 2 * t < 3 * threshold_66 t"
  unfolding threshold_66_def by presburger

lemma threshold_66_least: "0 < t \<Longrightarrow> 2 * t < 3 * w \<Longrightarrow> threshold_66 t \<le> w"
  unfolding threshold_66_def by presburger

lemma threshold_66_pos: "0 < threshold_66 t \<longleftrightarrow> 0 < t"
  by (simp add: threshold_66_def)

end
