(* ===== verification/Simplex_Certificate.thy ===== *)
theory Simplex_Certificate
  imports Simplex_Session
begin

text \<open>
  Votes (\<^verbatim>\<open>simplex_state.rs\<close>), their wire form (\<^verbatim>\<open>utils.rs\<close>) and certificates
  (\<^verbatim>\<open>certificate.rs\<close>): the conversions between votes and TL votes and the full
  verification of a received certificate.  The Ed25519 check
  \<^verbatim>\<open>PublicKey::verify\<close> and the TL byte serialisation are parameters.
\<close>

section \<open>Votes\<close>

record notarize_vote =
  nv_slot :: slot_index
  nv_block_hash :: uint256

record finalize_vote =
  fv_slot :: slot_index
  fv_block_hash :: uint256

record skip_vote =
  sv_slot :: slot_index

datatype vote = Notarize notarize_vote | Finalize finalize_vote | Skip skip_vote

text \<open>The generated TL types, fields of type \<^verbatim>\<open>int\<close> being 32-bit signed.\<close>

datatype unsigned_vote =
  TlNotarizeVote (tl_slot: int) uint256 | TlFinalizeVote (tl_slot: int) uint256 | TlSkipVote (tl_slot: int)

definition as_i32 :: "nat \<Rightarrow> int" where
  "as_i32 n = (let r = int n mod 2 ^ 32 in if r < 2 ^ 31 then r else r - 2 ^ 32)"

definition as_u32 :: "int \<Rightarrow> nat" where
  "as_u32 i = nat (i mod 2 ^ 32)"

definition vote_to_tl_unsigned :: "vote \<Rightarrow> unsigned_vote" where
  "vote_to_tl_unsigned vote =
    (case vote of
       Notarize v \<Rightarrow> TlNotarizeVote (as_i32 (nv_slot v)) (nv_block_hash v)
     | Finalize v \<Rightarrow> TlFinalizeVote (as_i32 (fv_slot v)) (fv_block_hash v)
     | Skip v \<Rightarrow> TlSkipVote (as_i32 (sv_slot v)))"

definition tl_unsigned_to_vote :: "unsigned_vote \<Rightarrow> vote option" where
  "tl_unsigned_to_vote tlv =
    (case tlv of
       TlNotarizeVote slot h \<Rightarrow>
         if slot < 0 then None
         else Some (Notarize \<lparr>nv_slot = as_u32 slot, nv_block_hash = h\<rparr>)
     | TlFinalizeVote slot h \<Rightarrow>
         if slot < 0 then None
         else Some (Finalize \<lparr>fv_slot = as_u32 slot, fv_block_hash = h\<rparr>)
     | TlSkipVote slot \<Rightarrow>
         if slot < 0 then None else Some (Skip \<lparr>sv_slot = as_u32 slot\<rparr>))"

definition get_vote_slot :: "unsigned_vote \<Rightarrow> int" where
  "get_vote_slot vote =
    (case vote of TlNotarizeVote s _ \<Rightarrow> s | TlFinalizeVote s _ \<Rightarrow> s | TlSkipVote s \<Rightarrow> s)"

section \<open>Certificates\<close>

record vote_signature =
  vs_validator_idx :: validator_index
  vs_signature :: bytes

record tl_vote_signature =
  tl_who :: int
  tl_signature :: bytes

definition vote_signature_from_tl :: "tl_vote_signature \<Rightarrow> vote_signature" where
  "vote_signature_from_tl tls =
     \<lparr>vs_validator_idx = as_u32 (tl_who tls), vs_signature = tl_signature tls\<rparr>"

definition vote_signature_to_tl :: "vote_signature \<Rightarrow> tl_vote_signature" where
  "vote_signature_to_tl s =
     \<lparr>tl_who = as_i32 (vs_validator_idx s), tl_signature = vs_signature s\<rparr>"

record 'v certificate =
  cert_vote :: 'v
  cert_signatures :: "vote_signature list"

type_synonym notar_cert = "notarize_vote certificate"
type_synonym final_cert = "finalize_vote certificate"
type_synonym skip_cert = "skip_vote certificate"

definition certificate_new :: "'v \<Rightarrow> vote_signature list \<Rightarrow> 'v certificate" where
  "certificate_new v sigs = \<lparr>cert_vote = v, cert_signatures = sigs\<rparr>"

definition cert_total_weight :: "'v certificate \<Rightarrow> session_description \<Rightarrow> validator_weight" where
  "cert_total_weight cert desc =
     sum_list (map (\<lambda>sig. get_node_weight desc (vs_validator_idx sig)) (cert_signatures cert))"

definition has_sufficient_weight :: "'v certificate \<Rightarrow> session_description \<Rightarrow> bool" where
  "has_sufficient_weight cert desc = (get_threshold_66 desc \<le> cert_total_weight cert desc)"

definition to_tl_vote_signature_set :: "'v certificate \<Rightarrow> tl_vote_signature list" where
  "to_tl_vote_signature_set cert = map vote_signature_to_tl (cert_signatures cert)"

datatype cert_error =
  InvalidSlot | InvalidValidatorIndex validator_index | DuplicateValidatorIndex validator_index
| InvalidVoteSignature validator_index | NotEnoughSignatures

text \<open>The signature loop of \<^verbatim>\<open>Certificate<Vote>::from_tl\<close>; \<open>verify key sig\<close> is the
  Ed25519 check over the session-scoped vote bytes.\<close>

fun check_signatures ::
  "(bytes \<Rightarrow> bytes \<Rightarrow> bool) \<Rightarrow> session_description \<Rightarrow> bool list \<Rightarrow> vote_signature list \<Rightarrow>
   validator_weight \<Rightarrow> tl_vote_signature list \<Rightarrow>
   cert_error + (vote_signature list \<times> validator_weight)" where
  "check_signatures verify desc voted signatures voted_weight [] = Inr (signatures, voted_weight)"
| "check_signatures verify desc voted signatures voted_weight (tl_sig # rest) =
    (let sig = vote_signature_from_tl tl_sig; validator_idx = vs_validator_idx sig
     in if get_total_nodes desc \<le> validator_idx then Inl (InvalidValidatorIndex validator_idx)
        else if voted ! validator_idx then Inl (DuplicateValidatorIndex validator_idx)
        else if \<not> verify (get_source_public_key desc validator_idx) (vs_signature sig)
          then Inl (InvalidVoteSignature validator_idx)
        else check_signatures verify desc (voted[validator_idx := True]) (signatures @ [sig])
               (voted_weight + get_node_weight desc validator_idx) rest)"

record tl_certificate =
  tl_cert_vote :: unsigned_vote
  tl_cert_signatures :: "tl_vote_signature list"

definition certificate_from_tl ::
  "(bytes \<Rightarrow> bytes \<Rightarrow> bytes \<Rightarrow> bool) \<Rightarrow> (unsigned_vote \<Rightarrow> bytes) \<Rightarrow> (uint256 \<Rightarrow> bytes \<Rightarrow> bytes) \<Rightarrow>
   session_description \<Rightarrow> uint256 \<Rightarrow> tl_certificate \<Rightarrow> cert_error + vote certificate" where
  "certificate_from_tl verify serialize_unsigned_vote create_data_to_sign desc sid tl_cert =
    (case tl_unsigned_to_vote (tl_cert_vote tl_cert) of
       None \<Rightarrow> Inl InvalidSlot
     | Some vote \<Rightarrow>
         let vote_bytes = create_data_to_sign sid (serialize_unsigned_vote (tl_cert_vote tl_cert))
         in case check_signatures (\<lambda>key sig. verify key vote_bytes sig) desc
                   (replicate (get_total_nodes desc) False) [] 0 (tl_cert_signatures tl_cert) of
              Inl e \<Rightarrow> Inl e
            | Inr (signatures, voted_weight) \<Rightarrow>
                if voted_weight < get_threshold_66 desc then Inl NotEnoughSignatures
                else Inr \<lparr>cert_vote = vote, cert_signatures = signatures\<rparr>)"

definition certificate_to_tl :: "('v \<Rightarrow> vote) \<Rightarrow> 'v certificate \<Rightarrow> tl_certificate" where
  "certificate_to_tl to_vote cert =
     \<lparr>tl_cert_vote = vote_to_tl_unsigned (to_vote (cert_vote cert)),
      tl_cert_signatures = to_tl_vote_signature_set cert\<rparr>"

text \<open>The loop of \<^verbatim>\<open>Certificate<T>::from_tl_signatures\<close> marks the validator before it checks
  the signature, which no caller can tell from the loop above: a failed check returns.\<close>

definition from_tl_signatures ::
  "(bytes \<Rightarrow> bytes \<Rightarrow> bytes \<Rightarrow> bool) \<Rightarrow> (unsigned_vote \<Rightarrow> bytes) \<Rightarrow> (uint256 \<Rightarrow> bytes \<Rightarrow> bytes) \<Rightarrow>
   ('v \<Rightarrow> vote) \<Rightarrow> session_description \<Rightarrow> uint256 \<Rightarrow> tl_vote_signature list \<Rightarrow> 'v \<Rightarrow>
   cert_error + 'v certificate" where
  "from_tl_signatures verify serialize_unsigned_vote create_data_to_sign to_vote desc sid tl_sigs vote =
    (let vote_bytes = create_data_to_sign sid
           (serialize_unsigned_vote (vote_to_tl_unsigned (to_vote vote)))
     in case check_signatures (\<lambda>key sig. verify key vote_bytes sig) desc
               (replicate (get_total_nodes desc) False) [] 0 tl_sigs of
          Inl e \<Rightarrow> Inl e
        | Inr (signatures, voted_weight) \<Rightarrow>
            if voted_weight < get_threshold_66 desc then Inl NotEnoughSignatures
            else Inr \<lparr>cert_vote = vote, cert_signatures = signatures\<rparr>)"

end
