(* ===== verification/Simplex_Votes.thy ===== *)
theory Simplex_Votes
  imports Simplex_Certificate
begin

text \<open>
  Vote accounting of one slot: \<^verbatim>\<open>ValidatorVotes\<close> and \<^verbatim>\<open>SlotVotes\<close> of
  \<^verbatim>\<open>simplex_state.rs\<close>, the misbehaviour proofs of \<^verbatim>\<open>misbehavior.rs\<close>, the recording
  of a single vote (the bodies of \<^verbatim>\<open>handle_notarize_vote\<close>, \<^verbatim>\<open>handle_skip_vote\<close>
  and \<^verbatim>\<open>handle_finalize_vote\<close> once the slot's accounting entry is at hand) and
  the absorption of a certificate's signatures (the loops of the
  \<^verbatim>\<open>set_*_certificate\<close> operations).
\<close>

section \<open>Misbehaviour\<close>

type_synonym raw_vote_data = bytes

datatype vote_descriptor = DescSkip | DescNotarize uint256 | DescFinalize uint256

datatype conflicting_vote_type = ConflictNotarize | ConflictFinalize

datatype conflict_reason = NotarizeFinalizeHashMismatch | FinalizeAfterSkip | SkipAfterFinalize

datatype misbehavior_proof =
  ConflictingVotes (mp_slot: slot_index) (mp_validator_idx: validator_index) conflicting_vote_type
    uint256 uint256 (mp_vote1: raw_vote_data) (mp_vote2: raw_vote_data)
| ConflictingVoteTypes (mp_slot: slot_index) (mp_validator_idx: validator_index) vote_descriptor
    vote_descriptor (mp_vote1: raw_vote_data) (mp_vote2: raw_vote_data) conflict_reason

text \<open>The text of a rejection is kept as the site that produced it.\<close>

datatype reject_reason = RejInvalidValidator | RejTooFarAhead | RejOutOfBounds

datatype vote_result =
  Applied | Duplicate | SlotAlreadyFinalized | Misbehavior misbehavior_proof | Rejected reject_reason

definition is_applied :: "vote_result \<Rightarrow> bool" where
  "is_applied r = (r = Applied)"

section \<open>Accounting state\<close>

record validator_votes =
  notarize :: "notarize_vote option"
  notarize_signature :: "bytes option"
  notarize_raw :: "raw_vote_data option"
  skip :: "skip_vote option"
  skip_signature :: "bytes option"
  skip_raw :: "raw_vote_data option"
  finalize :: "finalize_vote option"
  finalize_signature :: "bytes option"
  finalize_raw :: "raw_vote_data option"

definition validator_votes_default :: validator_votes where
  "validator_votes_default =
     \<lparr>notarize = None, notarize_signature = None, notarize_raw = None,
      skip = None, skip_signature = None, skip_raw = None,
      finalize = None, finalize_signature = None, finalize_raw = None\<rparr>"

record slot_votes =
  votes :: "validator_votes list"
  notarize_weight_by_block :: "(uint256, validator_weight) hash_map"
  finalize_weight_by_block :: "(uint256, validator_weight) hash_map"
  notarize_or_skip_weight :: validator_weight
  skip_weight :: validator_weight
  block_notarized_published :: bool
  block_finalized_published :: bool
  slot_skipped_published :: bool
  notarize_certificate :: "notar_cert option"
  finalize_certificate :: "final_cert option"
  skip_certificate :: "skip_cert option"

definition slot_votes_new :: "nat \<Rightarrow> slot_votes" where
  "slot_votes_new n =
     \<lparr>votes = replicate n validator_votes_default, notarize_weight_by_block = [],
      finalize_weight_by_block = [], notarize_or_skip_weight = 0, skip_weight = 0,
      block_notarized_published = False, block_finalized_published = False,
      slot_skipped_published = False, notarize_certificate = None,
      finalize_certificate = None, skip_certificate = None\<rparr>"

datatype certificate_store_error = ConflictingBlock uint256 uint256

definition store_notarize_certificate ::
  "uint256 \<Rightarrow> notar_cert \<Rightarrow> slot_votes \<Rightarrow> (certificate_store_error + bool) \<times> slot_votes" where
  "store_notarize_certificate block_hash cert sv =
    (case notarize_certificate sv of
       Some existing \<Rightarrow>
         if nv_block_hash (cert_vote existing) = block_hash then (Inr False, sv)
         else (Inl (ConflictingBlock (nv_block_hash (cert_vote existing)) block_hash), sv)
     | None \<Rightarrow> (Inr True, sv\<lparr>notarize_certificate := Some cert\<rparr>))"

definition store_finalize_certificate ::
  "uint256 \<Rightarrow> final_cert \<Rightarrow> slot_votes \<Rightarrow> (certificate_store_error + bool) \<times> slot_votes" where
  "store_finalize_certificate block_hash cert sv =
    (case finalize_certificate sv of
       Some existing \<Rightarrow>
         if fv_block_hash (cert_vote existing) = block_hash then (Inr False, sv)
         else (Inl (ConflictingBlock (fv_block_hash (cert_vote existing)) block_hash), sv)
     | None \<Rightarrow> (Inr True, sv\<lparr>finalize_certificate := Some cert\<rparr>))"

definition store_skip_certificate ::
  "skip_cert \<Rightarrow> slot_votes \<Rightarrow> (certificate_store_error + bool) \<times> slot_votes" where
  "store_skip_certificate cert sv =
    (if skip_certificate sv \<noteq> None then (Inr False, sv)
     else (Inr True, sv\<lparr>skip_certificate := Some cert\<rparr>))"

definition get_validator_votes :: "slot_votes \<Rightarrow> validator_index \<Rightarrow> validator_votes option" where
  "get_validator_votes sv i = (if i < length (votes sv) then Some (votes sv ! i) else None)"

section \<open>Certificate creation\<close>

definition enumerate_votes :: "slot_votes \<Rightarrow> (validator_index \<times> validator_votes) list" where
  "enumerate_votes sv = enumerate 0 (votes sv)"

definition collect_notarize_signatures :: "slot_votes \<Rightarrow> uint256 \<Rightarrow> vote_signature list" where
  "collect_notarize_signatures sv block_hash =
     List.map_filter (\<lambda>(idx, v).
       case (notarize v, notarize_signature v) of
         (Some vote, Some sig) \<Rightarrow>
           if nv_block_hash vote = block_hash
           then Some \<lparr>vs_validator_idx = idx, vs_signature = sig\<rparr> else None
       | _ \<Rightarrow> None) (enumerate_votes sv)"

definition collect_finalize_signatures :: "slot_votes \<Rightarrow> uint256 \<Rightarrow> vote_signature list" where
  "collect_finalize_signatures sv block_hash =
     List.map_filter (\<lambda>(idx, v).
       case (finalize v, finalize_signature v) of
         (Some vote, Some sig) \<Rightarrow>
           if fv_block_hash vote = block_hash
           then Some \<lparr>vs_validator_idx = idx, vs_signature = sig\<rparr> else None
       | _ \<Rightarrow> None) (enumerate_votes sv)"

definition collect_skip_signatures :: "slot_votes \<Rightarrow> vote_signature list" where
  "collect_skip_signatures sv =
     List.map_filter (\<lambda>(idx, v).
       case skip_signature v of
         Some sig \<Rightarrow>
           if skip v \<noteq> None then Some \<lparr>vs_validator_idx = idx, vs_signature = sig\<rparr> else None
       | None \<Rightarrow> None) (enumerate_votes sv)"

definition create_notarize_cert :: "slot_votes \<Rightarrow> slot_index \<Rightarrow> uint256 \<Rightarrow> notar_cert" where
  "create_notarize_cert sv slot block_hash =
     certificate_new \<lparr>nv_slot = slot, nv_block_hash = block_hash\<rparr>
       (collect_notarize_signatures sv block_hash)"

definition create_finalize_cert :: "slot_votes \<Rightarrow> slot_index \<Rightarrow> uint256 \<Rightarrow> final_cert" where
  "create_finalize_cert sv slot block_hash =
     certificate_new \<lparr>fv_slot = slot, fv_block_hash = block_hash\<rparr>
       (collect_finalize_signatures sv block_hash)"

definition create_skip_cert :: "slot_votes \<Rightarrow> slot_index \<Rightarrow> skip_cert" where
  "create_skip_cert sv slot =
     certificate_new \<lparr>sv_slot = slot\<rparr> (collect_skip_signatures sv)"

definition sv_get_notarize_certificate :: "slot_votes \<Rightarrow> uint256 \<Rightarrow> notar_cert option" where
  "sv_get_notarize_certificate sv block_hash =
    (case notarize_certificate sv of
       Some cert \<Rightarrow> if nv_block_hash (cert_vote cert) = block_hash then Some cert else None
     | None \<Rightarrow> None)"

section \<open>Recording a vote\<close>

definition unwrap_or_default :: "raw_vote_data option \<Rightarrow> raw_vote_data" where
  "unwrap_or_default r = (case r of Some b \<Rightarrow> b | None \<Rightarrow> [])"

definition record_notarize_vote ::
  "session_description \<Rightarrow> validator_index \<Rightarrow> notarize_vote \<Rightarrow> bytes \<Rightarrow> raw_vote_data \<Rightarrow>
   slot_votes \<Rightarrow> vote_result \<times> slot_votes" where
  "record_notarize_vote desc validator_idx vote sig raw_vote sv =
    (case get_validator_votes sv validator_idx of
       None \<Rightarrow> (Rejected RejOutOfBounds, sv)
     | Some vv \<Rightarrow>
       (case notarize vv of
          Some existing \<Rightarrow>
            if nv_block_hash existing \<noteq> nv_block_hash vote
            then (Misbehavior (ConflictingVotes (nv_slot vote) validator_idx ConflictNotarize
                    (nv_block_hash existing) (nv_block_hash vote)
                    (unwrap_or_default (notarize_raw vv)) raw_vote), sv)
            else (Duplicate, sv)
        | None \<Rightarrow>
            if (case finalize vv of Some f \<Rightarrow> fv_block_hash f \<noteq> nv_block_hash vote | None \<Rightarrow> False)
            then (Misbehavior (ConflictingVoteTypes (nv_slot vote) validator_idx
                    (DescFinalize (fv_block_hash (the (finalize vv))))
                    (DescNotarize (nv_block_hash vote))
                    (unwrap_or_default (finalize_raw vv)) raw_vote
                    NotarizeFinalizeHashMismatch), sv)
            else
              let had_notarize_or_skip = (notarize vv \<noteq> None \<or> skip vv \<noteq> None);
                  vv' = vv\<lparr>notarize := Some vote, notarize_signature := Some sig,
                           notarize_raw := Some raw_vote\<rparr>;
                  weight = get_node_weight desc validator_idx
              in (Applied,
                  sv\<lparr>votes := (votes sv)[validator_idx := vv'],
                     notarize_weight_by_block :=
                       hm_add (nv_block_hash vote) weight (notarize_weight_by_block sv),
                     notarize_or_skip_weight :=
                       (if had_notarize_or_skip then notarize_or_skip_weight sv
                        else notarize_or_skip_weight sv + weight)\<rparr>)))"

definition record_skip_vote ::
  "session_description \<Rightarrow> validator_index \<Rightarrow> skip_vote \<Rightarrow> bytes \<Rightarrow> raw_vote_data \<Rightarrow>
   slot_votes \<Rightarrow> vote_result \<times> slot_votes" where
  "record_skip_vote desc validator_idx vote sig raw_vote sv =
    (case get_validator_votes sv validator_idx of
       None \<Rightarrow> (Rejected RejOutOfBounds, sv)
     | Some vv \<Rightarrow>
        if skip vv \<noteq> None then (Duplicate, sv)
        else (case finalize vv of
          Some f \<Rightarrow>
            (Misbehavior (ConflictingVoteTypes (sv_slot vote) validator_idx
               (DescFinalize (fv_block_hash f)) DescSkip
               (unwrap_or_default (finalize_raw vv)) raw_vote SkipAfterFinalize), sv)
        | None \<Rightarrow>
            let had_notarize_or_skip = (notarize vv \<noteq> None \<or> skip vv \<noteq> None);
                had_skip = (skip vv \<noteq> None);
                vv' = vv\<lparr>skip := Some vote, skip_signature := Some sig,
                         skip_raw := Some raw_vote\<rparr>;
                weight = get_node_weight desc validator_idx
            in (Applied,
                sv\<lparr>votes := (votes sv)[validator_idx := vv'],
                   notarize_or_skip_weight :=
                     (if had_notarize_or_skip then notarize_or_skip_weight sv
                      else notarize_or_skip_weight sv + weight),
                   skip_weight :=
                     (if had_skip then skip_weight sv else skip_weight sv + weight)\<rparr>)))"

definition record_finalize_vote ::
  "session_description \<Rightarrow> validator_index \<Rightarrow> finalize_vote \<Rightarrow> bytes \<Rightarrow> raw_vote_data \<Rightarrow>
   slot_votes \<Rightarrow> vote_result \<times> slot_votes" where
  "record_finalize_vote desc validator_idx vote sig raw_vote sv =
    (case get_validator_votes sv validator_idx of
       None \<Rightarrow> (Rejected RejOutOfBounds, sv)
     | Some vv \<Rightarrow>
       (case finalize vv of
          Some existing \<Rightarrow>
            if fv_block_hash existing \<noteq> fv_block_hash vote
            then (Misbehavior (ConflictingVotes (fv_slot vote) validator_idx ConflictFinalize
                    (fv_block_hash existing) (fv_block_hash vote)
                    (unwrap_or_default (finalize_raw vv)) raw_vote), sv)
            else (Duplicate, sv)
        | None \<Rightarrow>
            if (case notarize vv of Some n \<Rightarrow> nv_block_hash n \<noteq> fv_block_hash vote | None \<Rightarrow> False)
            then (Misbehavior (ConflictingVoteTypes (fv_slot vote) validator_idx
                    (DescNotarize (nv_block_hash (the (notarize vv))))
                    (DescFinalize (fv_block_hash vote))
                    (unwrap_or_default (notarize_raw vv)) raw_vote
                    NotarizeFinalizeHashMismatch), sv)
            else if skip vv \<noteq> None
            then (Misbehavior (ConflictingVoteTypes (fv_slot vote) validator_idx DescSkip
                    (DescFinalize (fv_block_hash vote))
                    (unwrap_or_default (skip_raw vv)) raw_vote FinalizeAfterSkip), sv)
            else
              let vv' = vv\<lparr>finalize := Some vote, finalize_signature := Some sig,
                           finalize_raw := Some raw_vote\<rparr>;
                  weight = get_node_weight desc validator_idx
              in (Applied,
                  sv\<lparr>votes := (votes sv)[validator_idx := vv'],
                     finalize_weight_by_block :=
                       hm_add (fv_block_hash vote) weight (finalize_weight_by_block sv)\<rparr>)))"

section \<open>Absorbing the signatures of a certificate\<close>

definition absorb_notarize_signature ::
  "session_description \<Rightarrow> slot_index \<Rightarrow> uint256 \<Rightarrow> vote_signature \<Rightarrow> slot_votes \<Rightarrow> slot_votes" where
  "absorb_notarize_signature desc slot block_hash vote_sig sv =
    (let idx = vs_validator_idx vote_sig
     in if length (votes sv) \<le> idx then sv
        else let vv = votes sv ! idx
        in if notarize vv \<noteq> None then sv
        else if (case finalize vv of Some f \<Rightarrow> fv_block_hash f \<noteq> block_hash | None \<Rightarrow> False) then sv
        else
          let had_notarize_or_skip = (notarize vv \<noteq> None \<or> skip vv \<noteq> None);
              vv' = vv\<lparr>notarize := Some \<lparr>nv_slot = slot, nv_block_hash = block_hash\<rparr>,
                       notarize_signature := Some (vs_signature vote_sig)\<rparr>;
              weight = get_node_weight desc idx
          in sv\<lparr>votes := (votes sv)[idx := vv'],
                notarize_weight_by_block :=
                  hm_add block_hash weight (notarize_weight_by_block sv),
                notarize_or_skip_weight :=
                  (if had_notarize_or_skip then notarize_or_skip_weight sv
                   else notarize_or_skip_weight sv + weight)\<rparr>)"

definition absorb_finalize_signature ::
  "session_description \<Rightarrow> slot_index \<Rightarrow> uint256 \<Rightarrow> vote_signature \<Rightarrow> slot_votes \<Rightarrow> slot_votes" where
  "absorb_finalize_signature desc slot block_hash vote_sig sv =
    (let idx = vs_validator_idx vote_sig
     in if length (votes sv) \<le> idx then sv
        else let vv = votes sv ! idx
        in if finalize vv \<noteq> None then sv
        else if (case notarize vv of Some n \<Rightarrow> nv_block_hash n \<noteq> block_hash | None \<Rightarrow> False) then sv
        else if skip vv \<noteq> None then sv
        else
          let vv' = vv\<lparr>finalize := Some \<lparr>fv_slot = slot, fv_block_hash = block_hash\<rparr>,
                       finalize_signature := Some (vs_signature vote_sig)\<rparr>;
              weight = get_node_weight desc idx
          in sv\<lparr>votes := (votes sv)[idx := vv'],
                finalize_weight_by_block :=
                  hm_add block_hash weight (finalize_weight_by_block sv)\<rparr>)"

definition absorb_skip_signature ::
  "session_description \<Rightarrow> slot_index \<Rightarrow> vote_signature \<Rightarrow> slot_votes \<Rightarrow> slot_votes" where
  "absorb_skip_signature desc slot vote_sig sv =
    (let idx = vs_validator_idx vote_sig
     in if length (votes sv) \<le> idx then sv
        else let vv = votes sv ! idx;
                 had_notarize_or_skip = (notarize vv \<noteq> None \<or> skip vv \<noteq> None)
        in if skip vv \<noteq> None then sv
        else if finalize vv \<noteq> None then sv
        else
          let vv' = vv\<lparr>skip := Some \<lparr>sv_slot = slot\<rparr>,
                       skip_signature := Some (vs_signature vote_sig)\<rparr>;
              weight = get_node_weight desc idx
          in sv\<lparr>votes := (votes sv)[idx := vv'],
                notarize_or_skip_weight :=
                  (if had_notarize_or_skip then notarize_or_skip_weight sv
                   else notarize_or_skip_weight sv + weight),
                skip_weight := skip_weight sv + weight\<rparr>)"

definition absorb_notarize_signatures ::
  "session_description \<Rightarrow> slot_index \<Rightarrow> uint256 \<Rightarrow> vote_signature list \<Rightarrow> slot_votes \<Rightarrow> slot_votes" where
  "absorb_notarize_signatures desc slot block_hash sigs sv =
     fold (absorb_notarize_signature desc slot block_hash) sigs sv"

definition absorb_finalize_signatures ::
  "session_description \<Rightarrow> slot_index \<Rightarrow> uint256 \<Rightarrow> vote_signature list \<Rightarrow> slot_votes \<Rightarrow> slot_votes" where
  "absorb_finalize_signatures desc slot block_hash sigs sv =
     fold (absorb_finalize_signature desc slot block_hash) sigs sv"

definition absorb_skip_signatures ::
  "session_description \<Rightarrow> slot_index \<Rightarrow> vote_signature list \<Rightarrow> slot_votes \<Rightarrow> slot_votes" where
  "absorb_skip_signatures desc slot sigs sv = fold (absorb_skip_signature desc slot) sigs sv"

section \<open>Per-validator invariants\<close>

text \<open>The two assertions of \<^verbatim>\<open>check_validator_invariants\<close>; a violated one panics.\<close>

definition check_validator_invariants :: "validator_votes \<Rightarrow> bool" where
  "check_validator_invariants vv =
    ((case (notarize vv, finalize vv) of
        (Some n, Some f) \<Rightarrow> nv_slot n = fv_slot f \<and> nv_block_hash n = fv_block_hash f
      | _ \<Rightarrow> True) \<and>
     \<not> (finalize vv \<noteq> None \<and> skip vv \<noteq> None))"

end
