(* ===== verification/Simplex_Slots.thy ===== *)
theory Simplex_Slots
  imports Simplex_Votes
begin

text \<open>
  The state of the Simplex machine (\<^verbatim>\<open>simplex_state.rs\<close>): slots, leader windows,
  output events, the \<^verbatim>\<open>SimplexState\<close> record, its constructor, its accessors and
  the plumbing that finds and materialises slots and windows.

  A \<^verbatim>\<open>VecDeque\<close> or \<^verbatim>\<open>Vec\<close> is a list, the min-heap of pending slots is a sorted list
  whose head is popped, the ordered set of skip boundaries is a sorted list without
  duplicates.  \<open>get_slot_mut\<close> returns the slot it points to together with the
  state in which its window has been materialised; the mutation through that pointer
  is \<open>put_slot\<close>.
\<close>

section \<open>Events\<close>

record block_finalized_event =
  bfe_slot :: slot_index
  bfe_block_hash :: uint256
  bfe_block_id :: "block_id_ext option"
  bfe_certificate :: final_cert

record slot_skipped_event =
  sse_slot :: slot_index

record notarization_reached_event =
  nre_slot :: slot_index
  nre_block_hash :: uint256
  nre_certificate :: notar_cert

record skip_certificate_reached_event =
  scre_slot :: slot_index
  scre_certificate :: skip_cert

record finalization_reached_event =
  fre_slot :: slot_index
  fre_block_hash :: uint256
  fre_certificate :: final_cert

datatype simplex_event =
  BroadcastVote vote
| BlockFinalized block_finalized_event
| SlotSkipped slot_skipped_event
| NotarizationReached notarization_reached_event
| SkipCertificateReached skip_certificate_reached_event
| FinalizationReached finalization_reached_event

section \<open>Slots and windows\<close>

record slot =
  available_base :: "candidate_parent option"
  pending_block :: "candidate option"
  is_voted :: bool
  voted_notar :: "candidate_parent_info option"
  voted_skip :: bool
  voted_final :: bool
  observed_notar_certificate :: "candidate_parent_info option"
  skipped :: bool
  is_completed :: bool
  is_timeout_skipped :: bool

definition slot_default :: slot where
  "slot_default =
     \<lparr>available_base = None, pending_block = None, is_voted = False, voted_notar = None,
      voted_skip = False, voted_final = False, observed_notar_certificate = None,
      skipped = False, is_completed = False, is_timeout_skipped = False\<rparr>"

definition candidate_parent_ge :: "candidate_parent \<Rightarrow> candidate_parent \<Rightarrow> bool" where
  "candidate_parent_ge a b =
    (case (a, b) of
       (None, None) \<Rightarrow> True
     | (Some _, None) \<Rightarrow> True
     | (None, Some _) \<Rightarrow> False
     | (Some x, Some y) \<Rightarrow>
         cpi_slot y < cpi_slot x \<or> (cpi_slot x = cpi_slot y \<and> cpi_hash y \<le> cpi_hash x))"

definition add_available_base_max :: "candidate_parent \<Rightarrow> slot \<Rightarrow> slot" where
  "add_available_base_max parent s =
    (case available_base s of
       None \<Rightarrow> s\<lparr>available_base := Some parent\<rparr>
     | Some existing \<Rightarrow>
         if candidate_parent_ge parent existing then s\<lparr>available_base := Some parent\<rparr> else s)"

definition has_materialized_state :: "slot \<Rightarrow> bool" where
  "has_materialized_state s \<longleftrightarrow>
     available_base s \<noteq> None \<or> pending_block s \<noteq> None \<or> is_voted s \<or> voted_notar s \<noteq> None \<or>
     voted_skip s \<or> voted_final s \<or> observed_notar_certificate s \<noteq> None \<or> skipped s \<or>
     is_completed s \<or> is_timeout_skipped s"

datatype window_alloc = BoundedByHorizon | VerifiedCertificate

record leader_window =
  lw_window_idx :: window_index
  lw_start_slot :: slot_index
  lw_available_bases :: "candidate_parent set"
  lw_slots :: "slot list"
  lw_had_timeouts :: bool

definition leader_window_new :: "window_index \<Rightarrow> slot_index \<Rightarrow> nat \<Rightarrow> leader_window" where
  "leader_window_new idx start slots_per_window =
     \<lparr>lw_window_idx = idx, lw_start_slot = start, lw_available_bases = {},
      lw_slots = replicate slots_per_window slot_default, lw_had_timeouts = False\<rparr>"

section \<open>The state\<close>

record simplex_state =
  events :: "simplex_event list"
  leader_windows :: "leader_window list"
  leader_window_offset :: window_index
  current_leader_window_idx :: window_index
  first_non_finalized_slot :: slot_index
  pending_slots :: "slot_index list"
  slot_votes :: "(slot_index, slot_votes) hash_map"
  num_validators :: nat
  candidate_ids :: "(uint256, candidate_id) hash_map"
  first_non_progressed_slot :: slot_index
  skip_intervals :: "slot_index list"
  skip_slot :: slot_index
  skip_timestamp :: "system_time option"
  timeout_base :: "system_time option"
  first_block_timeout :: duration
  target_rate_timeout :: duration
  slots_per_leader_window :: nat
  max_leader_window_desync :: nat
  window_reject_count :: nat
  skipscan_invariant_warned :: bool
  startup_replay_active :: bool

section \<open>Acceptance bounds\<close>

definition max_future_slot_span :: "simplex_state \<Rightarrow> nat" where
  "max_future_slot_span st =
     saturating_mul_u32 (max_leader_window_desync st) (slots_per_leader_window st)"

definition max_acceptable_slot :: "simplex_state \<Rightarrow> slot_index" where
  "max_acceptable_slot st =
     saturating_add_u32 (first_non_progressed_slot st) (max_future_slot_span st)"

definition is_slot_too_far_ahead :: "simplex_state \<Rightarrow> slot_index \<Rightarrow> bool" where
  "is_slot_too_far_ahead st slot = (max_acceptable_slot st < slot)"

definition first_too_new_vote_slot :: "simplex_state \<Rightarrow> slot_index" where
  "first_too_new_vote_slot st =
    (let current_window = first_non_progressed_slot st div slots_per_leader_window st;
         first_too_new_window =
           saturating_add_u32 (saturating_add_u32 current_window (max_leader_window_desync st)) 1
     in saturating_mul_u32 first_too_new_window (slots_per_leader_window st))"

definition is_vote_slot_too_far_ahead :: "simplex_state \<Rightarrow> slot_index \<Rightarrow> bool" where
  "is_vote_slot_too_far_ahead st slot = (first_too_new_vote_slot st \<le> slot)"

section \<open>Windows\<close>

definition get_window :: "simplex_state \<Rightarrow> window_index \<Rightarrow> leader_window option" where
  "get_window st idx =
    (if idx < leader_window_offset st then None
     else let off = idx - leader_window_offset st
          in if off < length (leader_windows st) then Some (leader_windows st ! off) else None)"

text \<open>\<^verbatim>\<open>if let Some(window) = self.get_window_mut(idx) { f(window) }\<close>\<close>

definition update_window ::
  "window_index \<Rightarrow> (leader_window \<Rightarrow> leader_window) \<Rightarrow> simplex_state \<Rightarrow> simplex_state" where
  "update_window idx f st =
    (if idx < leader_window_offset st then st
     else let off = idx - leader_window_offset st
          in if off < length (leader_windows st)
             then st\<lparr>leader_windows := (leader_windows st)[off := f (leader_windows st ! off)]\<rparr>
             else st)"

definition update_slot_at ::
  "window_index \<Rightarrow> nat \<Rightarrow> (slot \<Rightarrow> slot) \<Rightarrow> simplex_state \<Rightarrow> simplex_state" where
  "update_slot_at idx off f =
     update_window idx (\<lambda>w. w\<lparr>lw_slots := (lw_slots w)[off := f (lw_slots w ! off)]\<rparr>)"

text \<open>The allocation loop of \<^verbatim>\<open>ensure_window_exists\<close>.\<close>

function push_windows :: "window_index \<Rightarrow> simplex_state \<Rightarrow> simplex_state" where
  "push_windows idx st =
    (let new_idx = leader_window_offset st + length (leader_windows st)
     in if new_idx \<le> idx
        then push_windows idx
               (st\<lparr>leader_windows := leader_windows st @
                    [leader_window_new new_idx (new_idx * slots_per_leader_window st)
                       (slots_per_leader_window st)]\<rparr>)
        else st)"
  by pat_completeness auto
termination
  by (relation "measure (\<lambda>(idx, st). Suc idx - (leader_window_offset st + length (leader_windows st)))")
    auto

definition ensure_window_exists :: "window_index \<Rightarrow> window_alloc \<Rightarrow> simplex_state \<Rightarrow> simplex_state" where
  "ensure_window_exists idx alloc st =
    (let max_window = max_acceptable_slot st div slots_per_leader_window st + 1
     in if alloc = BoundedByHorizon \<and> max_window < idx
        then st\<lparr>window_reject_count := window_reject_count st + 1\<rparr>
        else push_windows idx st)"

section \<open>Slots\<close>

definition get_slot_ref :: "session_description \<Rightarrow> simplex_state \<Rightarrow> slot_index \<Rightarrow> slot option" where
  "get_slot_ref desc st slot =
    (if slot < first_non_finalized_slot st then None
     else map_option (\<lambda>w. lw_slots w ! get_slot_offset_in_window desc slot)
            (get_window st (get_window_idx desc slot)))"

definition get_slot_mut ::
  "session_description \<Rightarrow> slot_index \<Rightarrow> window_alloc \<Rightarrow> simplex_state \<Rightarrow> slot option \<times> simplex_state" where
  "get_slot_mut desc slot alloc st =
    (if slot < first_non_finalized_slot st then (None, st)
     else let st1 = ensure_window_exists (get_window_idx desc slot) alloc st
          in (map_option (\<lambda>w. lw_slots w ! get_slot_offset_in_window desc slot)
                (get_window st1 (get_window_idx desc slot)), st1))"

definition put_slot ::
  "session_description \<Rightarrow> slot_index \<Rightarrow> (slot \<Rightarrow> slot) \<Rightarrow> simplex_state \<Rightarrow> simplex_state" where
  "put_slot desc slot f =
     update_slot_at (get_window_idx desc slot) (get_slot_offset_in_window desc slot) f"

text \<open>\<^verbatim>\<open>if let Some(s) = self.get_slot_mut(desc, slot, alloc) { f(s) }\<close>\<close>

definition modify_slot ::
  "session_description \<Rightarrow> slot_index \<Rightarrow> window_alloc \<Rightarrow> (slot \<Rightarrow> slot) \<Rightarrow> simplex_state \<Rightarrow> simplex_state" where
  "modify_slot desc slot alloc f st =
    (case get_slot_mut desc slot alloc st of
       (None, st1) \<Rightarrow> st1
     | (Some _, st1) \<Rightarrow> put_slot desc slot f st1)"

definition get_slot_available_base ::
  "session_description \<Rightarrow> simplex_state \<Rightarrow> slot_index \<Rightarrow> candidate_parent option" where
  "get_slot_available_base desc st slot =
     (case get_slot_ref desc st slot of None \<Rightarrow> None | Some s \<Rightarrow> available_base s)"

definition is_slot_skipped_cert :: "session_description \<Rightarrow> simplex_state \<Rightarrow> slot_index \<Rightarrow> bool" where
  "is_slot_skipped_cert desc st slot =
     (case get_slot_ref desc st slot of None \<Rightarrow> False | Some s \<Rightarrow> skipped s)"

definition is_slot_progressed :: "session_description \<Rightarrow> simplex_state \<Rightarrow> slot_index \<Rightarrow> bool" where
  "is_slot_progressed desc st slot =
     (case get_slot_ref desc st slot of
        None \<Rightarrow> False
      | Some s \<Rightarrow> skipped s \<or> observed_notar_certificate s \<noteq> None)"

text \<open>The scan over the windows that \<^verbatim>\<open>has_notarized_block\<close> and \<^verbatim>\<open>is_slot_finalized\<close>
  share.\<close>

fun window_scan :: "slot_index \<Rightarrow> leader_window list \<Rightarrow> slot option" where
  "window_scan s [] = None"
| "window_scan s (w # ws) =
    (if lw_start_slot w \<le> s \<and> s < lw_start_slot w + length (lw_slots w)
     then Some (lw_slots w ! (s - lw_start_slot w)) else window_scan s ws)"

definition has_notarized_block :: "simplex_state \<Rightarrow> slot_index \<Rightarrow> bool" where
  "has_notarized_block st slot =
    (if slot < first_non_finalized_slot st then True
     else case window_scan slot (leader_windows st) of
            None \<Rightarrow> False | Some s \<Rightarrow> observed_notar_certificate s \<noteq> None)"

definition is_slot_finalized :: "simplex_state \<Rightarrow> slot_index \<Rightarrow> bool" where
  "is_slot_finalized st slot =
    (if slot < first_non_finalized_slot st then True
     else case window_scan slot (leader_windows st) of
            None \<Rightarrow> False | Some s \<Rightarrow> is_completed s)"

definition has_skip_certificate_for_slot ::
  "session_description \<Rightarrow> simplex_state \<Rightarrow> slot_index \<Rightarrow> bool" where
  "has_skip_certificate_for_slot desc st slot = is_slot_skipped_cert desc st slot"

definition is_parent_valid :: "simplex_state \<Rightarrow> slot_index \<Rightarrow> bool" where
  "is_parent_valid st parent_slot =
    (if parent_slot < first_non_finalized_slot st then True else has_notarized_block st parent_slot)"

definition get_available_parent ::
  "session_description \<Rightarrow> simplex_state \<Rightarrow> slot_index \<Rightarrow> candidate_parent_info option" where
  "get_available_parent desc st slot =
    (case get_slot_available_base desc st slot of
       None \<Rightarrow> None
     | Some None \<Rightarrow> None
     | Some (Some parent_info) \<Rightarrow>
         if is_parent_valid st (cpi_slot parent_info) then Some parent_info else None)"

definition has_available_parent :: "session_description \<Rightarrow> simplex_state \<Rightarrow> slot_index \<Rightarrow> bool" where
  "has_available_parent desc st slot =
    (case get_slot_available_base desc st slot of
       None \<Rightarrow> False
     | Some None \<Rightarrow> True
     | Some (Some parent_info) \<Rightarrow> is_parent_valid st (cpi_slot parent_info))"

definition get_tracked_slots_interval :: "simplex_state \<Rightarrow> nat \<times> nat" where
  "get_tracked_slots_interval st =
    (let begin_slot = first_non_finalized_slot st
     in (begin_slot,
         fold (\<lambda>w e. fold (\<lambda>(idx, s) e'.
                  if has_materialized_state s then max e' (lw_start_slot w + idx + 1) else e')
                (enumerate 0 (lw_slots w)) e)
           (leader_windows st) begin_slot))"

section \<open>Vote accounting entries and stored certificates\<close>

definition slot_votes_at :: "slot_index \<Rightarrow> simplex_state \<Rightarrow> slot_votes" where
  "slot_votes_at slot st =
     (case hm_get (slot_votes st) slot of Some sv \<Rightarrow> sv | None \<Rightarrow> slot_votes_new (num_validators st))"

definition put_slot_votes :: "slot_index \<Rightarrow> slot_votes \<Rightarrow> simplex_state \<Rightarrow> simplex_state" where
  "put_slot_votes slot sv st = st\<lparr>slot_votes := hm_insert slot sv (slot_votes st)\<rparr>"

definition get_notarize_certificate :: "simplex_state \<Rightarrow> slot_index \<Rightarrow> uint256 \<Rightarrow> notar_cert option" where
  "get_notarize_certificate st slot block_hash =
    (case hm_get (slot_votes st) slot of
       None \<Rightarrow> None | Some sv \<Rightarrow> sv_get_notarize_certificate sv block_hash)"

definition get_last_finalize_certificate :: "simplex_state \<Rightarrow> (slot_index \<times> final_cert) option" where
  "get_last_finalize_certificate st =
     fold (\<lambda>(slot, sv) best.
        case finalize_certificate sv of
          None \<Rightarrow> best
        | Some cert \<Rightarrow>
            (case best of
               None \<Rightarrow> Some (slot, cert)
             | Some (best_slot, _) \<Rightarrow> if best_slot < slot then Some (slot, cert) else best))
       (slot_votes st) None"

definition certified_hash :: "slot_votes \<Rightarrow> uint256 option" where
  "certified_hash sv =
    (case finalize_certificate sv of
       Some cert \<Rightarrow> Some (fv_block_hash (cert_vote cert))
     | None \<Rightarrow>
        (case notarize_certificate sv of
           Some cert \<Rightarrow> Some (nv_block_hash (cert_vote cert)) | None \<Rightarrow> None))"

definition get_latest_notarized_candidate_up_to ::
  "simplex_state \<Rightarrow> slot_index \<Rightarrow> candidate_parent_info option" where
  "get_latest_notarized_candidate_up_to st up_to_slot =
     fold (\<lambda>(slot, sv) best.
        if up_to_slot < slot then best
        else case certified_hash sv of
               None \<Rightarrow> best
             | Some parent_hash \<Rightarrow>
                 (case best of
                    None \<Rightarrow> Some \<lparr>cpi_slot = slot, cpi_hash = parent_hash\<rparr>
                  | Some current_best \<Rightarrow>
                      if cpi_slot current_best < slot
                      then Some \<lparr>cpi_slot = slot, cpi_hash = parent_hash\<rparr> else best))
       (slot_votes st) None"

definition collect_cached_certificates_in_range ::
  "simplex_state \<Rightarrow> nat \<Rightarrow> nat \<Rightarrow>
   (slot_index \<times> notar_cert option \<times> skip_cert option \<times> final_cert option) list" where
  "collect_cached_certificates_in_range st b e =
     sort_key fst (List.map_filter (\<lambda>(slot, sv).
        if slot < b \<or> e \<le> slot then None
        else if notarize_certificate sv \<noteq> None \<or> skip_certificate sv \<noteq> None \<or>
                finalize_certificate sv \<noteq> None
        then Some (slot, notarize_certificate sv, skip_certificate sv, finalize_certificate sv)
        else None) (slot_votes st))"

definition get_notarized_block_hash ::
  "session_description \<Rightarrow> simplex_state \<Rightarrow> slot_index \<Rightarrow> uint256 option" where
  "get_notarized_block_hash desc st slot =
    (if slot < first_non_finalized_slot st
     then case hm_get (slot_votes st) slot of None \<Rightarrow> None | Some sv \<Rightarrow> certified_hash sv
     else case get_slot_ref desc st slot of
            None \<Rightarrow> None | Some s \<Rightarrow> map_option cpi_hash (observed_notar_certificate s))"

definition check_invariants :: "simplex_state \<Rightarrow> bool" where
  "check_invariants st =
     list_all (\<lambda>(slot_id, sv). list_all check_validator_invariants (votes sv)) (slot_votes st)"

section \<open>Event queue\<close>

definition pull_event :: "simplex_state \<Rightarrow> simplex_event option \<times> simplex_state" where
  "pull_event st =
    (case events st of [] \<Rightarrow> (None, st) | e # es \<Rightarrow> (Some e, st\<lparr>events := es\<rparr>))"

definition push_event_front :: "simplex_event \<Rightarrow> simplex_state \<Rightarrow> simplex_state" where
  "push_event_front e st = st\<lparr>events := e # events st\<rparr>"

definition push_event_back :: "simplex_event \<Rightarrow> simplex_state \<Rightarrow> simplex_state" where
  "push_event_back e st = st\<lparr>events := events st @ [e]\<rparr>"

definition broadcast_vote :: "vote \<Rightarrow> simplex_state \<Rightarrow> simplex_state" where
  "broadcast_vote v st = push_event_back (BroadcastVote v) st"

section \<open>Construction\<close>

definition initial_fields :: "session_description \<Rightarrow> simplex_state" where
  "initial_fields desc =
     \<lparr>events = [], leader_windows = [], leader_window_offset = 0,
      current_leader_window_idx = 0, first_non_finalized_slot = 0, pending_slots = [],
      slot_votes = [], num_validators = get_total_nodes desc, candidate_ids = [],
      first_non_progressed_slot = 0, skip_intervals = [], skip_slot = 0,
      skip_timestamp = None, timeout_base = None,
      first_block_timeout = opt_first_block_timeout (options desc),
      target_rate_timeout = target_rate (options desc),
      slots_per_leader_window = opt_slots_per_leader_window (options desc),
      max_leader_window_desync = opt_max_leader_window_desync (options desc),
      window_reject_count = 0, skipscan_invariant_warned = False,
      startup_replay_active = False\<rparr>"

definition simplex_state_new :: "session_description \<Rightarrow> simplex_state option" where
  "simplex_state_new desc =
    (if opt_slots_per_leader_window (options desc) = 0 then None
     else if get_total_nodes desc = 0 then None
     else let st = ensure_window_exists 0 BoundedByHorizon (initial_fields desc)
          in case get_window st 0 of
               None \<Rightarrow> None
             | Some _ \<Rightarrow>
                 Some (update_slot_at 0 0 (\<lambda>s. s\<lparr>available_base := Some None\<rparr>)
                   (update_window 0
                      (\<lambda>w. w\<lparr>lw_available_bases := insert None (lw_available_bases w)\<rparr>) st)))"

end
