(* ===== verification/Simplex_Fsm.thy ===== *)
theory Simplex_Fsm
  imports Simplex_Slots
begin

text \<open>
  The operations of the Simplex machine (\<^verbatim>\<open>simplex_state.rs\<close>), in the order of the
  code: cursors and skip intervals, voting helpers, parent-chain propagation, window
  advancement, threshold detection, vote and candidate ingress, certificate ingestion
  and timeouts.

  An operation that can reach a \<^verbatim>\<open>panic!\<close> or an \<^verbatim>\<open>assert!\<close> of the code returns
  \<^term>\<open>None\<close> there.  Logging has no effect on the state and is left out.
\<close>

section \<open>Timeouts\<close>

definition restore_default_timeouts :: "session_description \<Rightarrow> simplex_state \<Rightarrow> simplex_state" where
  "restore_default_timeouts desc st =
     st\<lparr>target_rate_timeout := target_rate (options desc),
        first_block_timeout := opt_first_block_timeout (options desc)\<rparr>"

definition set_timeouts :: "session_description \<Rightarrow> simplex_state \<Rightarrow> simplex_state" where
  "set_timeouts desc st =
    (let window_start = current_leader_window_idx st * slots_per_leader_window st
     in st\<lparr>skip_slot := max (first_non_progressed_slot st) window_start,
           timeout_base := Some (get_time desc + first_block_timeout st),
           skip_timestamp :=
             Some (get_time desc + (first_block_timeout st + target_rate_timeout st))\<rparr>)"

definition reset_timeouts_on_start :: "session_description \<Rightarrow> simplex_state \<Rightarrow> simplex_state" where
  "reset_timeouts_on_start desc st = set_timeouts desc (restore_default_timeouts desc st)"

definition get_next_timeout :: "simplex_state \<Rightarrow> system_time option" where
  "get_next_timeout st = skip_timestamp st"

definition apply_adaptive_timeout_backoff ::
  "session_description \<Rightarrow> simplex_state \<Rightarrow> simplex_state" where
  "apply_adaptive_timeout_backoff desc st =
    (let had_timeouts =
           (case get_window st (current_leader_window_idx st) of
              None \<Rightarrow> False | Some w \<Rightarrow> lw_had_timeouts w)
     in if had_timeouts
        then st\<lparr>first_block_timeout :=
                 min (mul_f64 desc (first_block_timeout st)
                        (first_block_timeout_multiplier (options desc)))
                     (first_block_timeout_cap (options desc))\<rparr>
        else restore_default_timeouts desc st)"

section \<open>Progress cursor and skip intervals\<close>

text \<open>\<^verbatim>\<open>while self.is_slot_progressed(now) { now += 1 }\<close>.  The window index of a slot
  divides by the window length, which construction requires to be positive; the loop
  is guarded by that condition.\<close>

function advance_progress_cursor :: "session_description \<Rightarrow> simplex_state \<Rightarrow> simplex_state" where
  "advance_progress_cursor desc st =
    (if 0 < opt_slots_per_leader_window (options desc) \<and>
        is_slot_progressed desc st (first_non_progressed_slot st)
     then advance_progress_cursor desc
            (st\<lparr>first_non_progressed_slot := first_non_progressed_slot st + 1\<rparr>)
     else st)"
  by pat_completeness auto
termination
proof (relation "measure (\<lambda>(desc, st).
    (leader_window_offset st + length (leader_windows st)) * opt_slots_per_leader_window (options desc)
    - first_non_progressed_slot st)", goal_cases)
  case 1
  show ?case by simp
next
  case (2 desc st)
  let ?spw = "opt_slots_per_leader_window (options desc)"
  let ?s = "first_non_progressed_slot st"
  from 2 have spw: "0 < ?spw" and p: "is_slot_progressed desc st ?s" by auto
  from p have "get_window st (get_window_idx desc ?s) \<noteq> None"
    by (auto simp: is_slot_progressed_def get_slot_ref_def split: option.splits if_splits)
  then have "?s div ?spw < leader_window_offset st + length (leader_windows st)"
    by (auto simp: get_window_def get_window_idx_def slot_window_index_def Let_def
        split: if_splits)
  then have "?s < (leader_window_offset st + length (leader_windows st)) * ?spw"
    using spw by (simp add: div_less_iff_less_mult)
  then show ?case by simp
qed

definition maybe_jump_progress_cursor_after_finalization ::
  "slot_index \<Rightarrow> simplex_state \<Rightarrow> simplex_state" where
  "maybe_jump_progress_cursor_after_finalization finalized_slot st =
    (if first_non_progressed_slot st \<le> finalized_slot
     then st\<lparr>first_non_progressed_slot := finalized_slot + 1\<rparr> else st)"

definition is_slot_skipped_cert_at ::
  "session_description \<Rightarrow> slot_index \<Rightarrow> window_alloc \<Rightarrow> simplex_state \<Rightarrow> bool \<times> simplex_state" where
  "is_slot_skipped_cert_at desc slot alloc st =
    (case alloc of
       BoundedByHorizon \<Rightarrow> (is_slot_skipped_cert desc st slot, st)
     | VerifiedCertificate \<Rightarrow>
        (case get_slot_mut desc slot alloc st of
           (None, st1) \<Rightarrow> (False, st1)
         | (Some s, st1) \<Rightarrow> (skipped s, st1)))"

definition warn_skipscan_invariant_once :: "simplex_state \<Rightarrow> simplex_state" where
  "warn_skipscan_invariant_once st =
     (if skipscan_invariant_warned st then st else st\<lparr>skipscan_invariant_warned := True\<rparr>)"

definition find_next_nonskipped_fallback_limit :: nat where
  "find_next_nonskipped_fallback_limit = 10000"

fun fallback_scan_first_non_skipped ::
  "session_description \<Rightarrow> slot_index \<Rightarrow> window_alloc \<Rightarrow> nat \<Rightarrow> simplex_state \<Rightarrow>
   slot_index option \<times> simplex_state" where
  "fallback_scan_first_non_skipped desc s alloc 0 st = (None, st)"
| "fallback_scan_first_non_skipped desc s alloc (Suc limit) st =
    (case is_slot_skipped_cert_at desc s alloc st of
       (False, st1) \<Rightarrow> (Some s, st1)
     | (True, st1) \<Rightarrow> fallback_scan_first_non_skipped desc (s + 1) alloc limit st1)"

text \<open>\<^verbatim>\<open>skip_intervals.range(next..).next()\<close>\<close>

definition skip_lower_bound :: "slot_index \<Rightarrow> slot_index list \<Rightarrow> slot_index option" where
  "skip_lower_bound n xs = find (\<lambda>x. n \<le> x) xs"

definition find_next_nonskipped_slot ::
  "session_description \<Rightarrow> slot_index \<Rightarrow> window_alloc \<Rightarrow> simplex_state \<Rightarrow>
   slot_index option \<times> simplex_state" where
  "find_next_nonskipped_slot desc slot alloc st =
    (let next_slot = slot + 1
     in case is_slot_skipped_cert_at desc next_slot alloc st of
          (False, st1) \<Rightarrow> (Some next_slot, st1)
        | (True, st1) \<Rightarrow>
           (case skip_lower_bound next_slot (skip_intervals st1) of
              Some b \<Rightarrow>
               (case is_slot_skipped_cert_at desc b alloc st1 of
                  (False, st2) \<Rightarrow> (Some b, st2)
                | (True, st2) \<Rightarrow>
                    fallback_scan_first_non_skipped desc next_slot alloc
                      find_next_nonskipped_fallback_limit (warn_skipscan_invariant_once st2))
            | None \<Rightarrow>
                fallback_scan_first_non_skipped desc next_slot alloc
                  find_next_nonskipped_fallback_limit (warn_skipscan_invariant_once st1)))"

definition btree_insert :: "slot_index \<Rightarrow> slot_index list \<Rightarrow> slot_index list" where
  "btree_insert x xs = (if x \<in> set xs then xs else insort x xs)"

definition btree_remove :: "slot_index \<Rightarrow> slot_index list \<Rightarrow> slot_index list" where
  "btree_remove x xs = removeAll x xs"

definition update_skip_intervals_after_skip_cert ::
  "slot_index \<Rightarrow> slot_index \<Rightarrow> simplex_state \<Rightarrow> simplex_state" where
  "update_skip_intervals_after_skip_cert slot next_slot st =
    (let xs = btree_remove slot (skip_intervals st)
     in st\<lparr>skip_intervals := (if next_slot = slot + 1 then btree_insert next_slot xs else xs)\<rparr>)"

text \<open>The pruning loop pops the least element while it is below the bound.\<close>

definition prune_skip_intervals_before :: "slot_index \<Rightarrow> simplex_state \<Rightarrow> simplex_state" where
  "prune_skip_intervals_before first_tracked_slot st =
     st\<lparr>skip_intervals := dropWhile (\<lambda>s. s < first_tracked_slot) (skip_intervals st)\<rparr>"

section \<open>Voting\<close>

definition should_vote_final :: "uint256 \<Rightarrow> slot \<Rightarrow> bool" where
  "should_vote_final block_hash s \<longleftrightarrow>
     (case observed_notar_certificate s of Some c \<Rightarrow> cpi_hash c = block_hash | None \<Rightarrow> False) \<and>
     (case voted_notar s of Some c \<Rightarrow> cpi_hash c = block_hash | None \<Rightarrow> False) \<and>
     \<not> is_completed s \<and> \<not> voted_skip s"

definition try_final ::
  "session_description \<Rightarrow> slot_index \<Rightarrow> uint256 \<Rightarrow> simplex_state \<Rightarrow> simplex_state" where
  "try_final desc slot block_hash st =
    (let window_idx = get_window_idx desc slot; offset = get_slot_offset_in_window desc slot;
         st1 = ensure_window_exists window_idx BoundedByHorizon st
     in case get_window st1 window_idx of
          None \<Rightarrow> st1
        | Some w \<Rightarrow>
            if should_vote_final block_hash (lw_slots w ! offset)
            then update_slot_at window_idx offset (\<lambda>s. s\<lparr>is_completed := True, voted_final := True\<rparr>)
                   (broadcast_vote (Finalize \<lparr>fv_slot = slot, fv_block_hash = block_hash\<rparr>) st1)
            else st1)"

definition try_notar ::
  "session_description \<Rightarrow> slot_index \<Rightarrow> uint256 \<Rightarrow> candidate_parent \<Rightarrow> simplex_state \<Rightarrow>
   bool \<times> simplex_state" where
  "try_notar desc slot block_hash parent st =
    (let window_idx = get_window_idx desc slot; offset = get_slot_offset_in_window desc slot;
         st1 = ensure_window_exists window_idx BoundedByHorizon st;
         already_voted =
           (case get_window st1 window_idx of
              None \<Rightarrow> False | Some w \<Rightarrow> voted_notar (lw_slots w ! offset) \<noteq> None)
     in if already_voted then (False, st1)
        else
          let can_vote_notar =
            (case get_slot_available_base desc st1 slot of
               None \<Rightarrow> False | Some expected_parent \<Rightarrow> expected_parent = parent)
          in if can_vote_notar
             then
               let st2 = broadcast_vote (Notarize \<lparr>nv_slot = slot, nv_block_hash = block_hash\<rparr>) st1;
                   st3 = update_slot_at window_idx offset
                           (\<lambda>s. s\<lparr>is_voted := True,
                                 voted_notar := Some \<lparr>cpi_slot = slot, cpi_hash = block_hash\<rparr>,
                                 pending_block := None\<rparr>) st2
               in (True, try_final desc slot block_hash st3)
             else (False, st1))"

definition parent_of_candidate :: "candidate \<Rightarrow> candidate_parent" where
  "parent_of_candidate c =
     map_option (\<lambda>p. \<lparr>cpi_slot = ci_slot p, cpi_hash = ci_hash p\<rparr>) (cand_parent_id c)"

definition pending_at ::
  "session_description \<Rightarrow> slot_index \<Rightarrow> simplex_state \<Rightarrow> candidate option" where
  "pending_at desc slot_id st =
    (case get_window st (get_window_idx desc slot_id) of
       None \<Rightarrow> None
     | Some w \<Rightarrow> pending_block (lw_slots w ! get_slot_offset_in_window desc slot_id))"

text \<open>The loop of \<^verbatim>\<open>check_pending_blocks\<close> over the heap taken out of the state.\<close>

fun check_pending_loop ::
  "session_description \<Rightarrow> slot_index list \<Rightarrow> simplex_state \<Rightarrow> simplex_state" where
  "check_pending_loop desc [] st = st"
| "check_pending_loop desc (slot_id # rest) st =
    (if slot_id < first_non_finalized_slot st then check_pending_loop desc rest st
     else case pending_at desc slot_id st of
            None \<Rightarrow> check_pending_loop desc rest st
          | Some c \<Rightarrow>
             (case try_notar desc slot_id (ci_hash (cand_id c)) (parent_of_candidate c) st of
                (True, st1) \<Rightarrow> check_pending_loop desc rest st1
              | (False, st1) \<Rightarrow>
                  check_pending_loop desc rest
                    (if pending_at desc slot_id st1 \<noteq> None
                     then st1\<lparr>pending_slots := insort slot_id (pending_slots st1)\<rparr> else st1)))"

definition check_pending_blocks :: "session_description \<Rightarrow> simplex_state \<Rightarrow> simplex_state" where
  "check_pending_blocks desc st =
     check_pending_loop desc (pending_slots st) (st\<lparr>pending_slots := []\<rparr>)"

text \<open>The loop of \<^verbatim>\<open>try_skip_window\<close> over the collected slots.\<close>

fun skip_slots :: "window_index \<Rightarrow> slot_index list \<Rightarrow> simplex_state \<Rightarrow> simplex_state" where
  "skip_slots window_idx [] st = st"
| "skip_slots window_idx (slot # rest) st =
     skip_slots window_idx rest
       (update_slot_at window_idx (offset_in_window slot (slots_per_leader_window st))
          (\<lambda>s. s\<lparr>is_voted := True, voted_skip := True, is_timeout_skipped := True\<rparr>)
          (broadcast_vote (Skip \<lparr>sv_slot = slot\<rparr>) st))"

definition slots_to_skip :: "window_index \<Rightarrow> simplex_state \<Rightarrow> slot_index list" where
  "slots_to_skip window_idx st =
    (case get_window st window_idx of
       None \<Rightarrow> []
     | Some w \<Rightarrow>
         map (\<lambda>i. window_idx * slots_per_leader_window st + i)
           (filter (\<lambda>i. \<not> voted_final (lw_slots w ! i)) [0..<slots_per_leader_window st]))"

definition try_skip_window :: "window_index \<Rightarrow> simplex_state \<Rightarrow> simplex_state" where
  "try_skip_window window_idx st =
    (let st1 = ensure_window_exists window_idx BoundedByHorizon st
     in skip_slots window_idx (slots_to_skip window_idx st1) st1)"

section \<open>Parent-chain propagation\<close>

definition propagate_base_after_notarization ::
  "session_description \<Rightarrow> candidate_parent_info \<Rightarrow> simplex_state \<Rightarrow> simplex_state" where
  "propagate_base_after_notarization desc parent_info st =
    (let (next, st1) = find_next_nonskipped_slot desc (cpi_slot parent_info) BoundedByHorizon st;
         st2 = (case next of
                  Some next_slot \<Rightarrow>
                    modify_slot desc next_slot BoundedByHorizon
                      (add_available_base_max (Some parent_info)) st1
                | None \<Rightarrow> st1)
     in check_pending_blocks desc (advance_progress_cursor desc st2))"

definition apply_final_cert_parent_chain_for_verified_certificate ::
  "session_description \<Rightarrow> candidate_parent_info \<Rightarrow> simplex_state \<Rightarrow> simplex_state" where
  "apply_final_cert_parent_chain_for_verified_certificate desc parent_info st =
    (case get_slot_mut desc (cpi_slot parent_info) VerifiedCertificate st of
       (None, st1) \<Rightarrow> st1
     | (Some s, st1) \<Rightarrow>
         let st2 = (if observed_notar_certificate s = None
                    then put_slot desc (cpi_slot parent_info)
                           (\<lambda>s. s\<lparr>observed_notar_certificate := Some parent_info\<rparr>) st1
                    else st1)
         in case find_next_nonskipped_slot desc (cpi_slot parent_info) VerifiedCertificate st2 of
              (None, st3) \<Rightarrow> check_pending_blocks desc st3
            | (Some next_slot, st3) \<Rightarrow>
                check_pending_blocks desc
                  (modify_slot desc next_slot VerifiedCertificate
                     (add_available_base_max (Some parent_info)) st3))"

definition propagate_base_after_skip_cert ::
  "session_description \<Rightarrow> slot_index \<Rightarrow> simplex_state \<Rightarrow> bool \<times> simplex_state" where
  "propagate_base_after_skip_cert desc slot st =
    (let st1 = modify_slot desc slot BoundedByHorizon (\<lambda>s. s\<lparr>skipped := True\<rparr>) st
     in case find_next_nonskipped_slot desc slot BoundedByHorizon st1 of
          (None, st2) \<Rightarrow>
            (False, check_pending_blocks desc (advance_progress_cursor desc
               (st2\<lparr>skip_intervals := btree_remove slot (skip_intervals st2)\<rparr>)))
        | (Some first_non_skipped_slot, st2) \<Rightarrow>
            let st3 = update_skip_intervals_after_skip_cert slot first_non_skipped_slot st2
            in case get_slot_available_base desc st3 slot of
                 None \<Rightarrow> (False, check_pending_blocks desc st3)
               | Some base \<Rightarrow>
                   (True, check_pending_blocks desc (advance_progress_cursor desc
                      (modify_slot desc first_non_skipped_slot BoundedByHorizon
                         (add_available_base_max base) st3))))"

section \<open>Leader window advancement\<close>

definition get_progress_cursor_base_or_panic ::
  "session_description \<Rightarrow> simplex_state \<Rightarrow> (candidate_parent \<times> simplex_state) option" where
  "get_progress_cursor_base_or_panic desc st =
    (if first_non_progressed_slot st = 0 then Some (None, st)
     else case get_slot_mut desc (first_non_progressed_slot st) BoundedByHorizon st of
            (None, st1) \<Rightarrow> None
          | (Some slot_state, st1) \<Rightarrow>
             (case available_base slot_state of
                None \<Rightarrow> None
              | Some base \<Rightarrow> Some (base, st1)))"

text \<open>What follows once the cursor has entered a new window and its base is known.\<close>

definition enter_leader_window ::
  "session_description \<Rightarrow> window_index \<Rightarrow> candidate_parent \<Rightarrow> simplex_state \<Rightarrow> simplex_state" where
  "enter_leader_window desc now_window base st1 =
    (let st2 = apply_adaptive_timeout_backoff desc st1;
         st3 = set_timeouts desc (st2\<lparr>current_leader_window_idx := now_window\<rparr>);
         st4 = ensure_window_exists now_window BoundedByHorizon st3;
         st5 = update_window now_window
                 (\<lambda>w. w\<lparr>lw_available_bases := insert base (lw_available_bases w)\<rparr>) st4
     in modify_slot desc (window_start now_window (slots_per_leader_window st5)) BoundedByHorizon
          (\<lambda>s. if available_base s = None then s\<lparr>available_base := Some base\<rparr> else s) st5)"

definition advance_leader_window_on_progress_cursor ::
  "session_description \<Rightarrow> simplex_state \<Rightarrow> simplex_state option" where
  "advance_leader_window_on_progress_cursor desc st =
    (let now_window = get_window_idx desc (first_non_progressed_slot st)
     in if now_window \<le> current_leader_window_idx st then Some st
        else if startup_replay_active st then Some st
        else do {
          (base, st1) \<leftarrow> get_progress_cursor_base_or_panic desc st;
          Some (enter_leader_window desc now_window base st1)
        })"

section \<open>Notarisation\<close>

text \<open>The skip timer update of \<^verbatim>\<open>on_block_notarized\<close>; the subtraction of the window
  start is checked.\<close>

definition advance_skip_timer :: "slot_index \<Rightarrow> simplex_state \<Rightarrow> simplex_state option" where
  "advance_skip_timer slot st =
    (let next_slot = slot + 1
     in if skip_slot st \<le> slot
        then case timeout_base st of
               None \<Rightarrow> Some st
             | Some base \<Rightarrow> do {
                 let ws = window_start (current_leader_window_idx st) (slots_per_leader_window st);
                 let is_window_end = (next_slot mod slots_per_leader_window st = 0);
                 let cpp_timeout_slot = (if is_window_end then next_slot else next_slot + 1);
                 off \<leftarrow> checked_sub cpp_timeout_slot ws;
                 Some (st\<lparr>skip_slot := next_slot,
                          skip_timestamp := Some (base + target_rate_timeout st * off)\<rparr>)
               }
        else Some st)"

definition on_block_notarized ::
  "session_description \<Rightarrow> slot_index \<Rightarrow> uint256 \<Rightarrow> simplex_state \<Rightarrow> simplex_state option" where
  "on_block_notarized desc slot block_hash st =
    (if slot < first_non_finalized_slot st then Some st
     else
       let window_idx = get_window_idx desc slot; offset = get_slot_offset_in_window desc slot;
           parent_info = \<lparr>cpi_slot = slot, cpi_hash = block_hash\<rparr>;
           st1 = ensure_window_exists window_idx BoundedByHorizon st;
           st2 = update_slot_at window_idx offset
                   (\<lambda>s. s\<lparr>observed_notar_certificate := Some parent_info\<rparr>) st1;
           st3 = propagate_base_after_notarization desc parent_info st2
       in do {
         st4 \<leftarrow> advance_leader_window_on_progress_cursor desc st3;
         st5 \<leftarrow> advance_skip_timer slot st4;
         Some (try_final desc slot block_hash st5)
       })"

end
