(* ===== verification/Simplex_Ingress.thy ===== *)
theory Simplex_Ingress
  imports Simplex_Fsm
begin

text \<open>
  The entry points of the Simplex machine (\<^verbatim>\<open>simplex_state.rs\<close>): threshold detection,
  \<^verbatim>\<open>on_vote\<close>, \<^verbatim>\<open>on_candidate\<close>, the three \<^verbatim>\<open>set_*_certificate\<close> operations,
  \<^verbatim>\<open>check_all\<close> with the timeout loop, and \<^verbatim>\<open>cleanup_slots\<close>.
\<close>

section \<open>Threshold detection\<close>

definition notarize_reached ::
  "session_description \<Rightarrow> slot_index \<Rightarrow> uint256 \<Rightarrow> simplex_state \<Rightarrow> simplex_state option" where
  "notarize_reached desc slot_id block st = do {
     st1 \<leftarrow>
      (case hm_get (slot_votes st) slot_id of
         None \<Rightarrow> Some st
       | Some sv \<Rightarrow>
           let sv1 = sv\<lparr>block_notarized_published := True\<rparr>;
               cert = create_notarize_cert sv1 slot_id block
           in case store_notarize_certificate block cert sv1 of
                (Inr True, sv2) \<Rightarrow>
                  Some (push_event_back (NotarizationReached
                          \<lparr>nre_slot = slot_id, nre_block_hash = block, nre_certificate = cert\<rparr>)
                        (put_slot_votes slot_id sv2 st))
              | (Inr False, sv2) \<Rightarrow> Some (put_slot_votes slot_id sv2 st)
              | (Inl e, sv2) \<Rightarrow> None);
     on_block_notarized desc slot_id block st1 }"

text \<open>The loop over the snapshot of the notarisation weights; \<open>published\<close> is the flag
  read before the loop.\<close>

fun notarize_threshold_loop ::
  "session_description \<Rightarrow> slot_index \<Rightarrow> bool \<Rightarrow> (uint256 \<times> validator_weight) list \<Rightarrow>
   simplex_state \<Rightarrow> simplex_state option" where
  "notarize_threshold_loop desc slot_id published [] st = Some st"
| "notarize_threshold_loop desc slot_id published ((block, weight) # rest) st =
    (if \<not> published \<and> get_threshold_66 desc \<le> weight
     then do {
       st1 \<leftarrow> notarize_reached desc slot_id block st;
       notarize_threshold_loop desc slot_id published rest st1 }
     else notarize_threshold_loop desc slot_id published rest st)"

text \<open>The two events of a finalised block: the commit trigger and, for a certificate that is
  new, the one that is cached and relayed.\<close>

definition emit_finalized ::
  "slot_index \<Rightarrow> uint256 \<Rightarrow> final_cert \<Rightarrow> bool \<Rightarrow> simplex_state \<Rightarrow> simplex_state" where
  "emit_finalized slot_id block certificate is_new_cert st =
    (let block_id = map_option ci_block (hm_get (candidate_ids st) block);
         st1 = push_event_back (BlockFinalized
                 \<lparr>bfe_slot = slot_id, bfe_block_hash = block, bfe_block_id = block_id,
                  bfe_certificate = certificate\<rparr>) st
     in if is_new_cert
        then push_event_back (FinalizationReached
               \<lparr>fre_slot = slot_id, fre_block_hash = block, fre_certificate = certificate\<rparr>) st1
        else st1)"

definition advance_finalized_boundary :: "slot_index \<Rightarrow> simplex_state \<Rightarrow> simplex_state" where
  "advance_finalized_boundary slot_id st =
    (if first_non_finalized_slot st \<le> slot_id
     then prune_skip_intervals_before (slot_id + 1) (st\<lparr>first_non_finalized_slot := slot_id + 1\<rparr>)
     else st)"

definition advance_present ::
  "session_description \<Rightarrow> bool \<Rightarrow> slot_index \<Rightarrow> simplex_state \<Rightarrow> simplex_state option" where
  "advance_present desc should_advance_present slot_id st =
    (if should_advance_present
     then advance_leader_window_on_progress_cursor desc
            (advance_progress_cursor desc
               (maybe_jump_progress_cursor_after_finalization slot_id st))
     else Some st)"

text \<open>The parent-chain update of the finalisation loop: a slot not seen as notarised is
  recorded and its base propagated.\<close>

definition record_missing_notarization ::
  "session_description \<Rightarrow> slot_index \<Rightarrow> uint256 \<Rightarrow> simplex_state \<Rightarrow> simplex_state" where
  "record_missing_notarization desc slot_id block st =
    (let parent_info = \<lparr>cpi_slot = slot_id, cpi_hash = block\<rparr>;
         missing_notar =
           (case get_slot_ref desc st slot_id of
              None \<Rightarrow> True | Some s \<Rightarrow> observed_notar_certificate s = None)
     in if missing_notar
        then propagate_base_after_notarization desc parent_info
               (modify_slot desc slot_id BoundedByHorizon
                  (\<lambda>s. s\<lparr>observed_notar_certificate := Some parent_info\<rparr>) st)
        else st)"

text \<open>The body of the finalisation loop for the block that reached the threshold.  The
  flag of the result tells whether the enclosing function returns at once.\<close>

definition finalize_reached ::
  "session_description \<Rightarrow> slot_index \<Rightarrow> uint256 \<Rightarrow> simplex_state \<Rightarrow> (bool \<times> simplex_state) option" where
  "finalize_reached desc slot_id block st =
    (case hm_get (slot_votes st) slot_id of
       None \<Rightarrow> Some (True, st)
     | Some sv \<Rightarrow>
         let sv1 = sv\<lparr>block_finalized_published := True\<rparr>;
             certificate = create_finalize_cert sv1 slot_id block
         in case store_finalize_certificate block certificate sv1 of
              (Inl e, sv2) \<Rightarrow> None
            | (Inr is_new_cert, sv2) \<Rightarrow>
                let st1 = emit_finalized slot_id block certificate is_new_cert
                            (put_slot_votes slot_id sv2 st);
                    st2 = advance_finalized_boundary slot_id st1;
                    should_advance_present = (first_non_progressed_slot st2 \<le> slot_id);
                    st3 = record_missing_notarization desc slot_id block st2
                in map_option (Pair False) (advance_present desc should_advance_present slot_id st3))"

fun finalize_threshold_loop ::
  "session_description \<Rightarrow> slot_index \<Rightarrow> (uint256 \<times> validator_weight) list \<Rightarrow> simplex_state \<Rightarrow>
   (bool \<times> simplex_state) option" where
  "finalize_threshold_loop desc slot_id [] st = Some (False, st)"
| "finalize_threshold_loop desc slot_id ((block, weight) # rest) st =
    (if get_threshold_66 desc \<le> weight then finalize_reached desc slot_id block st
     else finalize_threshold_loop desc slot_id rest st)"

definition emit_skipped :: "slot_index \<Rightarrow> skip_cert option \<Rightarrow> simplex_state \<Rightarrow> simplex_state" where
  "emit_skipped slot_id skip_cert st =
    (let st1 = push_event_back (SlotSkipped \<lparr>sse_slot = slot_id\<rparr>) st
     in case skip_cert of
          Some cert \<Rightarrow>
            push_event_back (SkipCertificateReached
              \<lparr>scre_slot = slot_id, scre_certificate = cert\<rparr>) st1
        | None \<Rightarrow> st1)"

text \<open>Propagation after a skip certificate, and window advancement when the cursor moved.\<close>

definition progress_after_skip ::
  "session_description \<Rightarrow> slot_index \<Rightarrow> simplex_state \<Rightarrow> simplex_state option" where
  "progress_after_skip desc slot_id st =
    (case propagate_base_after_skip_cert desc slot_id st of
       (True, st1) \<Rightarrow> advance_leader_window_on_progress_cursor desc st1
     | (False, st1) \<Rightarrow> Some st1)"

definition skip_reached ::
  "session_description \<Rightarrow> slot_index \<Rightarrow> simplex_state \<Rightarrow> simplex_state option" where
  "skip_reached desc slot_id st =
    (case hm_get (slot_votes st) slot_id of
       None \<Rightarrow> progress_after_skip desc slot_id (emit_skipped slot_id None st)
     | Some sv \<Rightarrow>
         let sv1 = sv\<lparr>slot_skipped_published := True\<rparr>;
             cert = create_skip_cert sv1 slot_id
         in case store_skip_certificate cert sv1 of
              (Inl e, sv2) \<Rightarrow> None
            | (Inr is_new, sv2) \<Rightarrow>
                progress_after_skip desc slot_id
                  (emit_skipped slot_id (if is_new then Some cert else skip_certificate sv2)
                     (put_slot_votes slot_id sv2 st)))"

definition check_thresholds_and_trigger ::
  "session_description \<Rightarrow> slot_index \<Rightarrow> simplex_state \<Rightarrow> simplex_state option" where
  "check_thresholds_and_trigger desc slot_id st = do {
     assert_opt (check_invariants st);
     (case hm_get (slot_votes st) slot_id of
        None \<Rightarrow> Some st
      | Some sv \<Rightarrow> do {
          st1 \<leftarrow> notarize_threshold_loop desc slot_id (block_notarized_published sv)
                   (notarize_weight_by_block sv) st;
          (returned, st2) \<leftarrow>
            (if \<not> block_finalized_published sv
             then finalize_threshold_loop desc slot_id (finalize_weight_by_block sv) st1
             else Some (False, st1));
          if returned then Some st2
          else if \<not> slot_skipped_published sv \<and> \<not> block_finalized_published sv \<and>
                  first_non_finalized_slot st2 \<le> slot_id \<and> get_threshold_66 desc \<le> skip_weight sv
          then skip_reached desc slot_id st2
          else Some st2 }) }"

section \<open>Votes\<close>

definition vote_slot :: "vote \<Rightarrow> slot_index" where
  "vote_slot v = (case v of Notarize n \<Rightarrow> nv_slot n | Finalize f \<Rightarrow> fv_slot f | Skip s \<Rightarrow> sv_slot s)"

definition handle_notarize_vote ::
  "session_description \<Rightarrow> validator_index \<Rightarrow> notarize_vote \<Rightarrow> bytes \<Rightarrow> raw_vote_data \<Rightarrow>
   simplex_state \<Rightarrow> vote_result \<times> simplex_state" where
  "handle_notarize_vote desc validator_idx vote sig raw_vote st =
    (if nv_slot vote < first_non_finalized_slot st then (SlotAlreadyFinalized, st)
     else let (r, sv) = record_notarize_vote desc validator_idx vote sig raw_vote
                          (slot_votes_at (nv_slot vote) st)
          in (r, put_slot_votes (nv_slot vote) sv st))"

definition handle_skip_vote ::
  "session_description \<Rightarrow> validator_index \<Rightarrow> skip_vote \<Rightarrow> bytes \<Rightarrow> raw_vote_data \<Rightarrow>
   simplex_state \<Rightarrow> vote_result \<times> simplex_state" where
  "handle_skip_vote desc validator_idx vote sig raw_vote st =
    (if sv_slot vote < first_non_finalized_slot st then (SlotAlreadyFinalized, st)
     else let (r, sv) = record_skip_vote desc validator_idx vote sig raw_vote
                          (slot_votes_at (sv_slot vote) st)
          in (r, put_slot_votes (sv_slot vote) sv st))"

definition handle_finalize_vote ::
  "session_description \<Rightarrow> validator_index \<Rightarrow> finalize_vote \<Rightarrow> bytes \<Rightarrow> raw_vote_data \<Rightarrow>
   simplex_state \<Rightarrow> vote_result \<times> simplex_state" where
  "handle_finalize_vote desc validator_idx vote sig raw_vote st =
    (if fv_slot vote < first_non_finalized_slot st then (SlotAlreadyFinalized, st)
     else let (r, sv) = record_finalize_vote desc validator_idx vote sig raw_vote
                          (slot_votes_at (fv_slot vote) st)
          in (r, put_slot_votes (fv_slot vote) sv st))"

definition handle_vote ::
  "session_description \<Rightarrow> validator_index \<Rightarrow> vote \<Rightarrow> bytes \<Rightarrow> raw_vote_data \<Rightarrow>
   simplex_state \<Rightarrow> vote_result \<times> simplex_state" where
  "handle_vote desc validator_idx vote sig raw_vote st =
    (case vote of
       Notarize v \<Rightarrow> handle_notarize_vote desc validator_idx v sig raw_vote st
     | Skip v \<Rightarrow> handle_skip_vote desc validator_idx v sig raw_vote st
     | Finalize v \<Rightarrow> handle_finalize_vote desc validator_idx v sig raw_vote st)"

definition on_vote ::
  "session_description \<Rightarrow> validator_index \<Rightarrow> vote \<Rightarrow> bytes \<Rightarrow> raw_vote_data \<Rightarrow>
   simplex_state \<Rightarrow> (vote_result \<times> simplex_state) option" where
  "on_vote desc validator_idx vote sig raw_vote st =
    (if is_out_of_bounds validator_idx (num_validators st) then Some (Rejected RejInvalidValidator, st)
     else if is_vote_slot_too_far_ahead st (vote_slot vote) then Some (Rejected RejTooFarAhead, st)
     else
       let (r, st1) = handle_vote desc validator_idx vote sig raw_vote st
       in if is_applied r \<and> first_non_finalized_slot st1 \<le> vote_slot vote
          then map_option (Pair r) (check_thresholds_and_trigger desc (vote_slot vote) st1)
          else Some (r, st1))"

section \<open>Candidates\<close>

datatype candidate_error = InvalidLeader | ParentSlotNotSmaller

definition on_candidate ::
  "session_description \<Rightarrow> candidate \<Rightarrow> simplex_state \<Rightarrow> (candidate_error + unit) \<times> simplex_state" where
  "on_candidate desc cand st =
    (let slot = ci_slot (cand_id cand); h = ci_hash (cand_id cand);
         window_idx = get_window_idx desc slot; offset = get_slot_offset_in_window desc slot
     in if num_validators st \<le> cand_leader cand then (Inl InvalidLeader, st)
        else if slot < first_non_finalized_slot st then (Inr (), st)
        else if is_slot_too_far_ahead st slot then (Inr (), st)
        else if (case cand_parent_id cand of Some p \<Rightarrow> slot \<le> ci_slot p | None \<Rightarrow> False)
        then (Inl ParentSlotNotSmaller, st)
        else
          let st1 = st\<lparr>candidate_ids := hm_insert h (cand_id cand) (candidate_ids st)\<rparr>
          in case try_notar desc slot h (parent_of_candidate cand) st1 of
               (True, st2) \<Rightarrow> (Inr (), check_pending_blocks desc st2)
             | (False, st2) \<Rightarrow>
                 let st3 = ensure_window_exists window_idx BoundedByHorizon st2
                 in case get_window st3 window_idx of
                      None \<Rightarrow> (Inr (), st3)
                    | Some w \<Rightarrow>
                        if voted_notar (lw_slots w ! offset) \<noteq> None then (Inr (), st3)
                        else if pending_block (lw_slots w ! offset) \<noteq> None then (Inr (), st3)
                        else
                          let st4 = update_slot_at window_idx offset
                                      (\<lambda>s. s\<lparr>pending_block := Some cand\<rparr>) st3
                          in (Inr (), st4\<lparr>pending_slots := insort slot (pending_slots st4)\<rparr>))"

section \<open>Certificates from outside\<close>

definition set_notarize_certificate ::
  "session_description \<Rightarrow> slot_index \<Rightarrow> uint256 \<Rightarrow> notar_cert \<Rightarrow> simplex_state \<Rightarrow>
   ((certificate_store_error + bool) \<times> simplex_state) option" where
  "set_notarize_certificate desc slot block_hash cert st =
    (case store_notarize_certificate block_hash cert (slot_votes_at slot st) of
       (Inr True, sv) \<Rightarrow>
         let sv1 = (absorb_notarize_signatures desc slot block_hash (cert_signatures cert) sv)
                     \<lparr>block_notarized_published := True\<rparr>;
             st1 = put_slot_votes slot sv1 st
         in if slot < first_non_finalized_slot st then Some (Inr True, st1)
            else map_option (Pair (Inr True))
                   (on_block_notarized desc slot block_hash
                      (push_event_back (NotarizationReached
                         \<lparr>nre_slot = slot, nre_block_hash = block_hash, nre_certificate = cert\<rparr>) st1))
     | (r, sv) \<Rightarrow> Some (r, put_slot_votes slot sv st))"

definition set_finalize_certificate ::
  "session_description \<Rightarrow> slot_index \<Rightarrow> uint256 \<Rightarrow> final_cert \<Rightarrow> simplex_state \<Rightarrow>
   ((certificate_store_error + bool) \<times> simplex_state) option" where
  "set_finalize_certificate desc slot block_hash cert st =
    (if slot < first_non_finalized_slot st then Some (Inr False, st)
     else
       let should_advance_present = (first_non_progressed_slot st \<le> slot)
       in case store_finalize_certificate block_hash cert (slot_votes_at slot st) of
            (Inr True, sv) \<Rightarrow>
              let sv1 = (absorb_finalize_signatures desc slot block_hash (cert_signatures cert) sv)
                          \<lparr>block_finalized_published := True\<rparr>;
                  st1 = emit_finalized slot block_hash cert True (put_slot_votes slot sv1 st);
                  st2 = apply_final_cert_parent_chain_for_verified_certificate desc
                          \<lparr>cpi_slot = slot, cpi_hash = block_hash\<rparr> st1;
                  st3 = advance_finalized_boundary slot st2
              in map_option (Pair (Inr True)) (advance_present desc should_advance_present slot st3)
          | (r, sv) \<Rightarrow> Some (r, put_slot_votes slot sv st))"

definition set_skip_certificate ::
  "session_description \<Rightarrow> slot_index \<Rightarrow> skip_cert \<Rightarrow> simplex_state \<Rightarrow>
   ((certificate_store_error + bool) \<times> simplex_state) option" where
  "set_skip_certificate desc slot cert st =
    (if slot < first_non_finalized_slot st then Some (Inr False, st)
     else case store_skip_certificate cert (slot_votes_at slot st) of
       (Inr True, sv) \<Rightarrow>
         let sv1 = (absorb_skip_signatures desc slot (cert_signatures cert) sv)
                     \<lparr>slot_skipped_published := True\<rparr>;
             st1 = put_slot_votes slot sv1 st;
             window_idx = slot_window_index slot (slots_per_leader_window st1);
             offset = offset_in_window slot (slots_per_leader_window st1);
             st2 = ensure_window_exists window_idx BoundedByHorizon st1;
             st3 = update_slot_at window_idx offset (\<lambda>s. s\<lparr>skipped := True\<rparr>) st2
         in map_option (\<lambda>st4. (Inr True, emit_skipped slot (Some cert) st4))
              (progress_after_skip desc slot st3)
     | (r, sv) \<Rightarrow> Some (r, put_slot_votes slot sv st))"

section \<open>Timeouts\<close>

text \<open>One iteration of the loop of \<^verbatim>\<open>process_timeouts\<close>.  The loop state holds the local
  \<^verbatim>\<open>skip_timestamp\<close>, the machine and whether the loop goes on.\<close>

definition timeout_iteration ::
  "session_description \<Rightarrow> system_time \<times> simplex_state \<times> bool \<Rightarrow> system_time \<times> simplex_state \<times> bool" where
  "timeout_iteration desc l =
    (case l of (ts, st, go) \<Rightarrow>
      let slot_id = skip_slot st;
          ts' = ts + target_rate_timeout st;
          st1 = st\<lparr>skip_slot := skip_slot st + 1, skip_timestamp := Some ts'\<rparr>
      in if slot_id < first_non_finalized_slot st1 then (ts', st1, True)
         else
           let window_idx = get_window_idx desc slot_id;
               offset = get_slot_offset_in_window desc slot_id;
               st2 = ensure_window_exists window_idx BoundedByHorizon st1
           in case get_window st2 window_idx of
                None \<Rightarrow> (ts', st2, True)
              | Some w \<Rightarrow>
                  if voted_final (lw_slots w ! offset) \<or> voted_skip (lw_slots w ! offset)
                  then (ts', st2, True)
                  else
                    let st3 = update_window window_idx (\<lambda>w. w\<lparr>lw_had_timeouts := True\<rparr>) st2;
                        st4 = try_skip_window window_idx st3;
                        window_end_slot = (window_idx + 1) * slots_per_leader_window st4;
                        st5 = (if skip_slot st4 < window_end_slot
                               then st4\<lparr>skip_slot := window_end_slot\<rparr> else st4)
                    in (ts', st5\<lparr>skip_timestamp := None, timeout_base := None\<rparr>, False))"

definition timeouts_pending ::
  "session_description \<Rightarrow> system_time \<times> simplex_state \<times> bool \<Rightarrow> bool" where
  "timeouts_pending desc l = (case l of (ts, st, go) \<Rightarrow> go \<and> \<not> is_in_future desc ts)"

text \<open>\<^term>\<open>None\<close> when the loop does not end.\<close>

definition process_timeouts :: "session_description \<Rightarrow> simplex_state \<Rightarrow> simplex_state option" where
  "process_timeouts desc st =
    (case skip_timestamp st of
       None \<Rightarrow> Some st
     | Some ts \<Rightarrow>
         map_option (\<lambda>(ts', st', go). st')
           (while_option (timeouts_pending desc) (timeout_iteration desc) (ts, st, True)))"

definition check_all :: "session_description \<Rightarrow> simplex_state \<Rightarrow> simplex_state option" where
  "check_all desc st = do { assert_opt (check_invariants st); process_timeouts desc st }"

section \<open>Cleanup\<close>

fun drop_old_windows ::
  "nat \<Rightarrow> slot_index \<Rightarrow> leader_window list \<Rightarrow> window_index \<Rightarrow> leader_window list \<times> window_index" where
  "drop_old_windows spw boundary [] off = ([], off)"
| "drop_old_windows spw boundary (front # ws) off =
    (if lw_start_slot front + spw \<le> boundary then drop_old_windows spw boundary ws (off + 1)
     else (front # ws, off))"

definition cleanup_slots :: "slot_index \<Rightarrow> simplex_state \<Rightarrow> simplex_state" where
  "cleanup_slots up_to_slot st =
    (let boundary = min up_to_slot (first_non_finalized_slot st)
     in if boundary = 0 then st
        else let (ws, off) = drop_old_windows (slots_per_leader_window st) boundary
                               (leader_windows st) (leader_window_offset st)
             in st\<lparr>leader_windows := ws, leader_window_offset := off,
                   slot_votes := hm_retain (\<lambda>slot_id. boundary \<le> slot_id) (slot_votes st),
                   candidate_ids := filter (\<lambda>(h, i). boundary \<le> ci_slot i) (candidate_ids st)\<rparr>)"

end
