(* ===== verification/Simplex_Recovery.thy ===== *)
theory Simplex_Recovery
  imports Simplex_Ingress
begin

text \<open>
  Bootstrap and restart of the Simplex machine (\<^verbatim>\<open>simplex_state.rs\<close>, bootstrap and
  recovery section): the replay flag, the restored finalisation cursor, the marks for
  votes cast before the restart, the catch-up skip votes and the repair of the parent
  base at the progress cursor.
\<close>

definition begin_startup_replay :: "simplex_state \<Rightarrow> simplex_state" where
  "begin_startup_replay st = st\<lparr>startup_replay_active := True\<rparr>"

fun prune_windows_below ::
  "window_index \<Rightarrow> leader_window list \<Rightarrow> window_index \<Rightarrow> leader_window list \<times> window_index" where
  "prune_windows_below needed [] off = ([], off)"
| "prune_windows_below needed (w # ws) off =
    (if off < needed then prune_windows_below needed ws (off + 1) else (w # ws, off))"

definition set_first_non_finalized_slot :: "slot_index \<Rightarrow> simplex_state \<Rightarrow> simplex_state" where
  "set_first_non_finalized_slot slot st =
    (let st1 = (if first_non_finalized_slot st < slot
                then st\<lparr>first_non_finalized_slot := slot\<rparr> else st);
         st2 = prune_skip_intervals_before (first_non_finalized_slot st1) st1;
         needed_window = first_non_finalized_slot st2 div slots_per_leader_window st2;
         (ws, off) = prune_windows_below needed_window (leader_windows st2)
                       (leader_window_offset st2)
     in st2\<lparr>leader_windows := ws,
            leader_window_offset := (if off < needed_window then needed_window else off)\<rparr>)"

definition restart_mark :: "vote \<Rightarrow> slot \<Rightarrow> slot" where
  "restart_mark vote s =
    (case vote of
       Notarize v \<Rightarrow>
         s\<lparr>is_voted := True,
           voted_notar := Some \<lparr>cpi_slot = nv_slot v, cpi_hash = nv_block_hash v\<rparr>\<rparr>
     | Finalize v \<Rightarrow> s\<lparr>is_voted := True, is_completed := True, voted_final := True\<rparr>
     | Skip v \<Rightarrow> s\<lparr>is_voted := True, voted_skip := True, is_timeout_skipped := True\<rparr>)"

definition mark_slot_voted_on_restart ::
  "session_description \<Rightarrow> vote \<Rightarrow> simplex_state \<Rightarrow> simplex_state" where
  "mark_slot_voted_on_restart desc vote st =
    (let slot = vote_slot vote; window_idx = get_window_idx desc slot;
         offset = get_slot_offset_in_window desc slot
     in if window_idx < leader_window_offset st then st
        else
          let st1 = ensure_window_exists window_idx BoundedByHorizon st
          in case get_window st1 window_idx of
               None \<Rightarrow> st1
             | Some w \<Rightarrow>
                 if offset < length (lw_slots w)
                 then update_slot_at window_idx offset (restart_mark vote) st1 else st1)"

fun restart_skip_loop ::
  "nat \<Rightarrow> slot_index list \<Rightarrow> nat \<Rightarrow> simplex_state \<Rightarrow> nat \<times> simplex_state" where
  "restart_skip_loop spw [] skip_count st = (skip_count, st)"
| "restart_skip_loop spw (slot # rest) skip_count st =
    (let window_idx = slot div spw; offset = slot mod spw
     in if window_idx < leader_window_offset st then restart_skip_loop spw rest skip_count st
        else
          let st1 = ensure_window_exists window_idx BoundedByHorizon st
          in case get_window st1 window_idx of
               None \<Rightarrow> restart_skip_loop spw rest skip_count st1
             | Some w \<Rightarrow>
                 if offset < length (lw_slots w) \<and> \<not> is_completed (lw_slots w ! offset)
                 then restart_skip_loop spw rest (skip_count + 1)
                        (push_event_back (BroadcastVote (Skip \<lparr>sv_slot = slot\<rparr>))
                           (update_slot_at window_idx offset
                              (\<lambda>s. s\<lparr>is_voted := True, voted_skip := True,
                                    is_timeout_skipped := True\<rparr>) st1))
                 else restart_skip_loop spw rest skip_count st1)"

definition generate_restart_skip_votes ::
  "window_index \<Rightarrow> nat \<Rightarrow> simplex_state \<Rightarrow> nat \<times> simplex_state" where
  "generate_restart_skip_votes first_nonannounced_window slots_per_window st =
    (if first_nonannounced_window = 0 then (0, st)
     else restart_skip_loop slots_per_window
            [(first_nonannounced_window - 1) * slots_per_window
             ..< first_nonannounced_window * slots_per_window] 0 st)"

definition set_available_base_after_restart ::
  "session_description \<Rightarrow> candidate_parent_info \<Rightarrow> simplex_state \<Rightarrow> simplex_state option" where
  "set_available_base_after_restart desc parent_info st =
    (let next_slot = first_non_finalized_slot st;
         (s, st1) = get_slot_mut desc next_slot BoundedByHorizon st;
         st2 = (if s \<noteq> None
                then put_slot desc next_slot (\<lambda>s. s\<lparr>available_base := Some (Some parent_info)\<rparr>) st1
                else st1);
         slot_was_skipped = (case s of None \<Rightarrow> False | Some s' \<Rightarrow> skipped s')
     in if slot_was_skipped
        then progress_after_skip desc next_slot st2
        else Some (check_pending_blocks desc st2))"

definition repair_progress_cursor_base_after_startup_replay ::
  "session_description \<Rightarrow> simplex_state \<Rightarrow> simplex_state" where
  "repair_progress_cursor_base_after_startup_replay desc st =
    (let progress_slot = first_non_progressed_slot st
     in if progress_slot = 0 then st
        else if (case get_slot_ref desc st progress_slot of
                   None \<Rightarrow> False | Some s \<Rightarrow> available_base s \<noteq> None) then st
        else case get_latest_notarized_candidate_up_to st (progress_slot - 1) of
               None \<Rightarrow> st
             | Some parent_info \<Rightarrow>
                 modify_slot desc progress_slot BoundedByHorizon
                   (add_available_base_max (Some parent_info)) st)"

definition finish_startup_replay ::
  "session_description \<Rightarrow> simplex_state \<Rightarrow> simplex_state option" where
  "finish_startup_replay desc st =
    (if \<not> startup_replay_active st then Some st
     else advance_leader_window_on_progress_cursor desc
            (repair_progress_cursor_base_after_startup_replay desc
               (st\<lparr>startup_replay_active := False\<rparr>)))"

end
