(* ===== verification/Simplex_View.thy ===== *)
theory Simplex_View
  imports Simplex_Recovery
begin

text \<open>
  The slot view: the machine's windows seen as one total map from slots to slot states,
  with the default state for slots whose window is not materialised.  The lemmas of
  this theory say how the plumbing operations change the view and which fields they
  leave alone; the proofs about the machine's operations rest on them.
\<close>

section \<open>Well-formed windows\<close>

definition slots_per_window :: "session_description \<Rightarrow> nat" where
  "slots_per_window desc = opt_slots_per_leader_window (options desc)"

definition wf_windows :: "session_description \<Rightarrow> simplex_state \<Rightarrow> bool" where
  "wf_windows desc st \<longleftrightarrow>
     0 < slots_per_window desc \<and> slots_per_leader_window st = slots_per_window desc \<and>
     (\<forall>i < length (leader_windows st).
        length (lw_slots (leader_windows st ! i)) = slots_per_window desc \<and>
        lw_window_idx (leader_windows st ! i) = leader_window_offset st + i \<and>
        lw_start_slot (leader_windows st ! i) =
          (leader_window_offset st + i) * slots_per_window desc)"

definition has_window :: "simplex_state \<Rightarrow> window_index \<Rightarrow> bool" where
  "has_window st w \<longleftrightarrow>
     leader_window_offset st \<le> w \<and> w < leader_window_offset st + length (leader_windows st)"

definition slot_view :: "session_description \<Rightarrow> simplex_state \<Rightarrow> slot_index \<Rightarrow> slot" where
  "slot_view desc st s =
    (case get_window st (get_window_idx desc s) of
       None \<Rightarrow> slot_default
     | Some w \<Rightarrow> lw_slots w ! get_slot_offset_in_window desc s)"

lemma get_window_eq:
  "get_window st w =
    (if has_window st w then Some (leader_windows st ! (w - leader_window_offset st)) else None)"
  by (auto simp: get_window_def has_window_def Let_def)

lemma get_window_Some [simp]:
  "get_window st w = Some lw \<longleftrightarrow>
     has_window st w \<and> lw = leader_windows st ! (w - leader_window_offset st)"
  by (auto simp: get_window_eq)

lemma get_window_None [simp]: "get_window st w = None \<longleftrightarrow> \<not> has_window st w"
  by (simp add: get_window_eq)

lemma slot_view_window:
  "has_window st (get_window_idx desc s) \<Longrightarrow>
   lw_slots (leader_windows st ! (get_window_idx desc s - leader_window_offset st)) !
     get_slot_offset_in_window desc s = slot_view desc st s"
  by (simp add: slot_view_def get_window_eq)

lemma slot_view_none:
  "\<not> has_window st (get_window_idx desc s) \<Longrightarrow> slot_view desc st s = slot_default"
  by (simp add: slot_view_def get_window_eq)

lemma window_offset_eqI:
  "get_window_idx desc s = get_window_idx desc t \<Longrightarrow>
   get_slot_offset_in_window desc s = get_slot_offset_in_window desc t \<Longrightarrow> s = t"
  by (auto simp: get_window_idx_def get_slot_offset_in_window_def intro: slot_eqI)

lemma wf_windows_offset [simp]:
  "wf_windows desc st \<Longrightarrow> get_slot_offset_in_window desc s < slots_per_window desc"
  by (simp add: wf_windows_def get_slot_offset_in_window_def slots_per_window_def)

lemma wf_windows_pos: "wf_windows desc st \<Longrightarrow> 0 < slots_per_window desc"
  by (simp add: wf_windows_def)

lemma wf_windows_spw: "wf_windows desc st \<Longrightarrow> slots_per_leader_window st = slots_per_window desc"
  by (simp add: wf_windows_def)

lemma wf_windows_length:
  "wf_windows desc st \<Longrightarrow> has_window st w \<Longrightarrow>
   length (lw_slots (leader_windows st ! (w - leader_window_offset st))) = slots_per_window desc"
  by (simp add: wf_windows_def has_window_def less_diff_conv2)

lemma get_slot_ref_eq:
  "get_slot_ref desc st s =
    (if s < first_non_finalized_slot st \<or> \<not> has_window st (get_window_idx desc s) then None
     else Some (slot_view desc st s))"
  by (auto simp: get_slot_ref_def get_window_eq slot_view_window)

section \<open>Pushing windows\<close>

declare push_windows.simps [simp del]
declare advance_progress_cursor.simps [simp del]

definition fresh_windows :: "nat \<Rightarrow> nat \<Rightarrow> nat \<Rightarrow> leader_window list" where
  "fresh_windows spw a b = map (\<lambda>i. leader_window_new i (i * spw) spw) [a..<b]"

lemma push_windows_closed:
  "push_windows idx st =
     st\<lparr>leader_windows := leader_windows st @
          fresh_windows (slots_per_leader_window st)
            (leader_window_offset st + length (leader_windows st)) (Suc idx)\<rparr>"
proof (induction idx st rule: push_windows.induct)
  case (1 idx st)
  let ?n = "leader_window_offset st + length (leader_windows st)"
  show ?case
  proof (cases "?n \<le> idx")
    case True
    have "fresh_windows (slots_per_leader_window st) ?n (Suc idx) =
        leader_window_new ?n (?n * slots_per_leader_window st) (slots_per_leader_window st) #
        fresh_windows (slots_per_leader_window st) (Suc ?n) (Suc idx)"
      using True by (simp add: fresh_windows_def upt_conv_Cons del: upt_Suc)
    with 1 True show ?thesis
      by (subst push_windows.simps) (simp add: Let_def)
  next
    case False
    then show ?thesis
      by (subst push_windows.simps) (simp add: Let_def fresh_windows_def)
  qed
qed

lemma ensure_window_cases:
  obtains (reject) "ensure_window_exists idx alloc st =
      st\<lparr>window_reject_count := window_reject_count st + 1\<rparr>"
      "alloc = BoundedByHorizon" "max_acceptable_slot st div slots_per_leader_window st + 1 < idx"
  | (push) "ensure_window_exists idx alloc st = push_windows idx st"
      "alloc = VerifiedCertificate \<or>
       idx \<le> max_acceptable_slot st div slots_per_leader_window st + 1"
  by (cases alloc;
      cases "max_acceptable_slot st div slots_per_leader_window st + 1 < idx")
    (auto simp: ensure_window_exists_def Let_def)

lemma ensure_window_frame [simp]:
  "events (ensure_window_exists idx alloc st) = events st"
  "leader_window_offset (ensure_window_exists idx alloc st) = leader_window_offset st"
  "current_leader_window_idx (ensure_window_exists idx alloc st) = current_leader_window_idx st"
  "first_non_finalized_slot (ensure_window_exists idx alloc st) = first_non_finalized_slot st"
  "pending_slots (ensure_window_exists idx alloc st) = pending_slots st"
  "simplex_state.slot_votes (ensure_window_exists idx alloc st) = simplex_state.slot_votes st"
  "num_validators (ensure_window_exists idx alloc st) = num_validators st"
  "candidate_ids (ensure_window_exists idx alloc st) = candidate_ids st"
  "first_non_progressed_slot (ensure_window_exists idx alloc st) = first_non_progressed_slot st"
  "skip_intervals (ensure_window_exists idx alloc st) = skip_intervals st"
  "skip_slot (ensure_window_exists idx alloc st) = skip_slot st"
  "skip_timestamp (ensure_window_exists idx alloc st) = skip_timestamp st"
  "timeout_base (ensure_window_exists idx alloc st) = timeout_base st"
  "first_block_timeout (ensure_window_exists idx alloc st) = first_block_timeout st"
  "target_rate_timeout (ensure_window_exists idx alloc st) = target_rate_timeout st"
  "slots_per_leader_window (ensure_window_exists idx alloc st) = slots_per_leader_window st"
  "max_leader_window_desync (ensure_window_exists idx alloc st) = max_leader_window_desync st"
  "skipscan_invariant_warned (ensure_window_exists idx alloc st) = skipscan_invariant_warned st"
  "startup_replay_active (ensure_window_exists idx alloc st) = startup_replay_active st"
  by (auto simp: ensure_window_exists_def push_windows_closed Let_def)

lemma has_window_push:
  "has_window (push_windows idx st) w \<longleftrightarrow>
     has_window st w \<or> (leader_window_offset st \<le> w \<and> w \<le> idx)"
  by (auto simp: has_window_def push_windows_closed fresh_windows_def)

lemma has_window_ensure:
  "has_window (ensure_window_exists idx alloc st) w \<longleftrightarrow>
     has_window st w \<or>
     (leader_window_offset st \<le> w \<and> w \<le> idx \<and>
      (alloc = VerifiedCertificate \<or>
       idx \<le> max_acceptable_slot st div slots_per_leader_window st + 1))"
  by (rule ensure_window_cases [of idx alloc st])
    (auto simp: has_window_push, auto simp: has_window_def)

lemma has_window_ensure_mono [simp]:
  "has_window st w \<Longrightarrow> has_window (ensure_window_exists idx alloc st) w"
  by (simp add: has_window_ensure)

lemma nth_fresh_windows:
  "i < b - a \<Longrightarrow> fresh_windows spw a b ! i = leader_window_new (a + i) ((a + i) * spw) spw"
  by (simp add: fresh_windows_def)

lemma wf_windows_push: "wf_windows desc st \<Longrightarrow> wf_windows desc (push_windows idx st)"
  by (auto simp: wf_windows_def push_windows_closed nth_append nth_fresh_windows
      leader_window_new_def fresh_windows_def)

lemma wf_windows_ensure [simp]:
  "wf_windows desc st \<Longrightarrow> wf_windows desc (ensure_window_exists idx alloc st)"
  by (rule ensure_window_cases [of idx alloc st])
    (simp_all add: wf_windows_push, simp add: wf_windows_def)

lemma slot_view_push:
  assumes "wf_windows desc st"
  shows "slot_view desc (push_windows idx st) s = slot_view desc st s"
proof -
  let ?w = "get_window_idx desc s" and ?n = "leader_window_offset st + length (leader_windows st)"
  have "?n \<le> ?w \<Longrightarrow> ?w \<le> idx \<Longrightarrow>
      lw_slots (fresh_windows (slots_per_window desc) ?n (Suc idx) ! (?w - ?n)) !
        get_slot_offset_in_window desc s = slot_default"
    using assms by (subst nth_fresh_windows) (auto simp: leader_window_new_def)
  then show ?thesis
    using assms
    by (auto simp: slot_view_def get_window_eq has_window_def push_windows_closed nth_append
        wf_windows_spw fresh_windows_def diff_diff_left)
qed

lemma slot_view_ensure [simp]:
  assumes "wf_windows desc st"
  shows "slot_view desc (ensure_window_exists idx alloc st) = slot_view desc st"
proof
  fix s
  show "slot_view desc (ensure_window_exists idx alloc st) s = slot_view desc st s"
    by (rule ensure_window_cases [of idx alloc st])
      (simp_all add: slot_view_push [OF assms], simp add: slot_view_def get_window_eq has_window_def)
qed

section \<open>Updating a slot\<close>

lemma update_window_frame [simp]:
  "events (update_window w f st) = events st"
  "leader_window_offset (update_window w f st) = leader_window_offset st"
  "current_leader_window_idx (update_window w f st) = current_leader_window_idx st"
  "first_non_finalized_slot (update_window w f st) = first_non_finalized_slot st"
  "pending_slots (update_window w f st) = pending_slots st"
  "simplex_state.slot_votes (update_window w f st) = simplex_state.slot_votes st"
  "num_validators (update_window w f st) = num_validators st"
  "candidate_ids (update_window w f st) = candidate_ids st"
  "first_non_progressed_slot (update_window w f st) = first_non_progressed_slot st"
  "skip_intervals (update_window w f st) = skip_intervals st"
  "skip_slot (update_window w f st) = skip_slot st"
  "skip_timestamp (update_window w f st) = skip_timestamp st"
  "timeout_base (update_window w f st) = timeout_base st"
  "first_block_timeout (update_window w f st) = first_block_timeout st"
  "target_rate_timeout (update_window w f st) = target_rate_timeout st"
  "slots_per_leader_window (update_window w f st) = slots_per_leader_window st"
  "max_leader_window_desync (update_window w f st) = max_leader_window_desync st"
  "skipscan_invariant_warned (update_window w f st) = skipscan_invariant_warned st"
  "startup_replay_active (update_window w f st) = startup_replay_active st"
  "length (leader_windows (update_window w f st)) = length (leader_windows st)"
  by (auto simp: update_window_def Let_def)

lemma has_window_update [simp]: "has_window (update_window w f st) = has_window st"
  by (simp add: has_window_def fun_eq_iff)

lemma update_window_eq:
  "has_window st w \<Longrightarrow>
   update_window w f st =
     st\<lparr>leader_windows := (leader_windows st)
          [w - leader_window_offset st := f (leader_windows st ! (w - leader_window_offset st))]\<rparr>"
  by (auto simp: update_window_def has_window_def Let_def)

lemma update_window_nth:
  assumes "has_window st w" and "has_window st v"
  shows "leader_windows (update_window w f st) ! (v - leader_window_offset st) =
     (if v = w then f (leader_windows st ! (v - leader_window_offset st))
      else leader_windows st ! (v - leader_window_offset st))"
proof -
  have "v - leader_window_offset st = w - leader_window_offset st \<longleftrightarrow> v = w"
    using assms by (simp add: has_window_def eq_diff_iff)
  moreover have "v - leader_window_offset st < length (leader_windows st)"
    using assms by (simp add: has_window_def less_diff_conv2)
  ultimately show ?thesis
    by (cases "v = w") (simp_all add: update_window_eq [OF assms(1)] nth_list_update_neq)
qed

lemma update_window_none: "\<not> has_window st w \<Longrightarrow> update_window w f st = st"
  by (auto simp: update_window_def has_window_def Let_def)

lemma slot_view_update_window:
  assumes "\<And>lw. lw_slots (f lw) = g (lw_slots lw)"
  shows "slot_view desc (update_window w f st) s =
    (if has_window st w \<and> get_window_idx desc s = w
     then g (lw_slots (leader_windows st ! (w - leader_window_offset st))) !
            get_slot_offset_in_window desc s
     else slot_view desc st s)"
proof (cases "has_window st w")
  case True
  then show ?thesis
    by (auto simp: slot_view_def get_window_eq update_window_nth assms)
next
  case False
  then show ?thesis by (simp add: update_window_none)
qed

lemma wf_windows_update_window:
  assumes "wf_windows desc st"
    and "\<And>lw. length (lw_slots (f lw)) = length (lw_slots lw)"
    and "\<And>lw. lw_window_idx (f lw) = lw_window_idx lw"
    and "\<And>lw. lw_start_slot (f lw) = lw_start_slot lw"
  shows "wf_windows desc (update_window w f st)"
  using assms by (auto simp: wf_windows_def update_window_def Let_def nth_list_update)

lemma slot_view_update_bases [simp]:
  "slot_view desc (update_window w (\<lambda>x. x\<lparr>lw_available_bases := B x\<rparr>) st) = slot_view desc st"
  "slot_view desc (update_window w (\<lambda>x. x\<lparr>lw_had_timeouts := b\<rparr>) st) = slot_view desc st"
  by (rule ext, subst slot_view_update_window [where g = id],
      auto simp: slot_view_def get_window_eq)+

lemma wf_windows_update_bases [simp]:
  "wf_windows desc st \<Longrightarrow>
   wf_windows desc (update_window w (\<lambda>x. x\<lparr>lw_available_bases := B x\<rparr>) st)"
  "wf_windows desc st \<Longrightarrow> wf_windows desc (update_window w (\<lambda>x. x\<lparr>lw_had_timeouts := b\<rparr>) st)"
  by (rule wf_windows_update_window, auto)+

lemma update_slot_at_frame [simp]:
  "events (update_slot_at w i f st) = events st"
  "leader_window_offset (update_slot_at w i f st) = leader_window_offset st"
  "current_leader_window_idx (update_slot_at w i f st) = current_leader_window_idx st"
  "first_non_finalized_slot (update_slot_at w i f st) = first_non_finalized_slot st"
  "pending_slots (update_slot_at w i f st) = pending_slots st"
  "simplex_state.slot_votes (update_slot_at w i f st) = simplex_state.slot_votes st"
  "num_validators (update_slot_at w i f st) = num_validators st"
  "candidate_ids (update_slot_at w i f st) = candidate_ids st"
  "first_non_progressed_slot (update_slot_at w i f st) = first_non_progressed_slot st"
  "skip_intervals (update_slot_at w i f st) = skip_intervals st"
  "skip_slot (update_slot_at w i f st) = skip_slot st"
  "skip_timestamp (update_slot_at w i f st) = skip_timestamp st"
  "timeout_base (update_slot_at w i f st) = timeout_base st"
  "first_block_timeout (update_slot_at w i f st) = first_block_timeout st"
  "target_rate_timeout (update_slot_at w i f st) = target_rate_timeout st"
  "slots_per_leader_window (update_slot_at w i f st) = slots_per_leader_window st"
  "max_leader_window_desync (update_slot_at w i f st) = max_leader_window_desync st"
  "skipscan_invariant_warned (update_slot_at w i f st) = skipscan_invariant_warned st"
  "startup_replay_active (update_slot_at w i f st) = startup_replay_active st"
  "has_window (update_slot_at w i f st) = has_window st"
  by (simp_all add: update_slot_at_def)

lemma wf_windows_update_slot [simp]:
  "wf_windows desc st \<Longrightarrow> wf_windows desc (update_slot_at w i f st)"
  unfolding update_slot_at_def by (rule wf_windows_update_window) auto

lemma slot_view_update_slot:
  assumes "wf_windows desc st"
  shows "slot_view desc (update_slot_at w i f st) s =
    (if has_window st w \<and> get_window_idx desc s = w \<and> get_slot_offset_in_window desc s = i
     then f (slot_view desc st s) else slot_view desc st s)"
  using assms wf_windows_length [OF assms, of w] wf_windows_offset [OF assms, of s]
  unfolding update_slot_at_def
  by (subst slot_view_update_window [where g = "\<lambda>xs. xs[i := f (xs ! i)]"])
    (auto simp: nth_list_update slot_view_def get_window_eq)

lemma slot_view_put_slot:
  assumes "wf_windows desc st"
  shows "slot_view desc (put_slot desc t f st) s =
    (if s = t \<and> has_window st (get_window_idx desc t) then f (slot_view desc st s)
     else slot_view desc st s)"
  using window_offset_eqI [of desc s t]
  by (auto simp: put_slot_def slot_view_update_slot [OF assms])

lemma modify_slot_eq:
  "modify_slot desc s alloc f st =
    (if s < first_non_finalized_slot st then st
     else put_slot desc s f (ensure_window_exists (get_window_idx desc s) alloc st))"
  by (auto simp: modify_slot_def get_slot_mut_def Let_def put_slot_def update_slot_at_def
      get_window_eq update_window_none)

section \<open>Fields the view does not depend on\<close>

lemma view_field_update [simp]:
  "slot_view desc (st\<lparr>events := x1\<rparr>) = slot_view desc st"
  "slot_view desc (st\<lparr>current_leader_window_idx := x2\<rparr>) = slot_view desc st"
  "slot_view desc (st\<lparr>first_non_finalized_slot := x3\<rparr>) = slot_view desc st"
  "slot_view desc (st\<lparr>pending_slots := x4\<rparr>) = slot_view desc st"
  "slot_view desc (st\<lparr>slot_votes := x5\<rparr>) = slot_view desc st"
  "slot_view desc (st\<lparr>candidate_ids := x6\<rparr>) = slot_view desc st"
  "slot_view desc (st\<lparr>first_non_progressed_slot := x7\<rparr>) = slot_view desc st"
  "slot_view desc (st\<lparr>skip_intervals := x8\<rparr>) = slot_view desc st"
  "slot_view desc (st\<lparr>skip_slot := x9\<rparr>) = slot_view desc st"
  "slot_view desc (st\<lparr>skip_timestamp := x10\<rparr>) = slot_view desc st"
  "slot_view desc (st\<lparr>timeout_base := x11\<rparr>) = slot_view desc st"
  "slot_view desc (st\<lparr>first_block_timeout := x12\<rparr>) = slot_view desc st"
  "slot_view desc (st\<lparr>target_rate_timeout := x13\<rparr>) = slot_view desc st"
  "slot_view desc (st\<lparr>window_reject_count := x14\<rparr>) = slot_view desc st"
  "slot_view desc (st\<lparr>skipscan_invariant_warned := x15\<rparr>) = slot_view desc st"
  "slot_view desc (st\<lparr>startup_replay_active := x16\<rparr>) = slot_view desc st"
  "has_window (st\<lparr>events := x1\<rparr>) = has_window st"
  "has_window (st\<lparr>current_leader_window_idx := x2\<rparr>) = has_window st"
  "has_window (st\<lparr>first_non_finalized_slot := x3\<rparr>) = has_window st"
  "has_window (st\<lparr>pending_slots := x4\<rparr>) = has_window st"
  "has_window (st\<lparr>slot_votes := x5\<rparr>) = has_window st"
  "has_window (st\<lparr>candidate_ids := x6\<rparr>) = has_window st"
  "has_window (st\<lparr>first_non_progressed_slot := x7\<rparr>) = has_window st"
  "has_window (st\<lparr>skip_intervals := x8\<rparr>) = has_window st"
  "has_window (st\<lparr>skip_slot := x9\<rparr>) = has_window st"
  "has_window (st\<lparr>skip_timestamp := x10\<rparr>) = has_window st"
  "has_window (st\<lparr>timeout_base := x11\<rparr>) = has_window st"
  "has_window (st\<lparr>first_block_timeout := x12\<rparr>) = has_window st"
  "has_window (st\<lparr>target_rate_timeout := x13\<rparr>) = has_window st"
  "has_window (st\<lparr>window_reject_count := x14\<rparr>) = has_window st"
  "has_window (st\<lparr>skipscan_invariant_warned := x15\<rparr>) = has_window st"
  "has_window (st\<lparr>startup_replay_active := x16\<rparr>) = has_window st"
  "wf_windows desc (st\<lparr>events := x1\<rparr>) = wf_windows desc st"
  "wf_windows desc (st\<lparr>current_leader_window_idx := x2\<rparr>) = wf_windows desc st"
  "wf_windows desc (st\<lparr>first_non_finalized_slot := x3\<rparr>) = wf_windows desc st"
  "wf_windows desc (st\<lparr>pending_slots := x4\<rparr>) = wf_windows desc st"
  "wf_windows desc (st\<lparr>slot_votes := x5\<rparr>) = wf_windows desc st"
  "wf_windows desc (st\<lparr>candidate_ids := x6\<rparr>) = wf_windows desc st"
  "wf_windows desc (st\<lparr>first_non_progressed_slot := x7\<rparr>) = wf_windows desc st"
  "wf_windows desc (st\<lparr>skip_intervals := x8\<rparr>) = wf_windows desc st"
  "wf_windows desc (st\<lparr>skip_slot := x9\<rparr>) = wf_windows desc st"
  "wf_windows desc (st\<lparr>skip_timestamp := x10\<rparr>) = wf_windows desc st"
  "wf_windows desc (st\<lparr>timeout_base := x11\<rparr>) = wf_windows desc st"
  "wf_windows desc (st\<lparr>first_block_timeout := x12\<rparr>) = wf_windows desc st"
  "wf_windows desc (st\<lparr>target_rate_timeout := x13\<rparr>) = wf_windows desc st"
  "wf_windows desc (st\<lparr>window_reject_count := x14\<rparr>) = wf_windows desc st"
  "wf_windows desc (st\<lparr>skipscan_invariant_warned := x15\<rparr>) = wf_windows desc st"
  "wf_windows desc (st\<lparr>startup_replay_active := x16\<rparr>) = wf_windows desc st"
  by (simp_all add: slot_view_def get_window_def has_window_def wf_windows_def fun_eq_iff Let_def)

lemma put_slot_frame [simp]:
  "events (put_slot desc s f st) = events st"
  "leader_window_offset (put_slot desc s f st) = leader_window_offset st"
  "current_leader_window_idx (put_slot desc s f st) = current_leader_window_idx st"
  "first_non_finalized_slot (put_slot desc s f st) = first_non_finalized_slot st"
  "pending_slots (put_slot desc s f st) = pending_slots st"
  "simplex_state.slot_votes (put_slot desc s f st) = simplex_state.slot_votes st"
  "num_validators (put_slot desc s f st) = num_validators st"
  "candidate_ids (put_slot desc s f st) = candidate_ids st"
  "first_non_progressed_slot (put_slot desc s f st) = first_non_progressed_slot st"
  "skip_intervals (put_slot desc s f st) = skip_intervals st"
  "skip_slot (put_slot desc s f st) = skip_slot st"
  "skip_timestamp (put_slot desc s f st) = skip_timestamp st"
  "timeout_base (put_slot desc s f st) = timeout_base st"
  "first_block_timeout (put_slot desc s f st) = first_block_timeout st"
  "target_rate_timeout (put_slot desc s f st) = target_rate_timeout st"
  "slots_per_leader_window (put_slot desc s f st) = slots_per_leader_window st"
  "max_leader_window_desync (put_slot desc s f st) = max_leader_window_desync st"
  "skipscan_invariant_warned (put_slot desc s f st) = skipscan_invariant_warned st"
  "startup_replay_active (put_slot desc s f st) = startup_replay_active st"
  "has_window (put_slot desc s f st) = has_window st"
  by (simp_all add: put_slot_def)

lemma wf_windows_put_slot [simp]: "wf_windows desc st \<Longrightarrow> wf_windows desc (put_slot desc s f st)"
  by (simp add: put_slot_def)

lemma broadcast_vote_frame [simp]:
  "slot_view desc (broadcast_vote v st) = slot_view desc st"
  "has_window (broadcast_vote v st) = has_window st"
  "wf_windows desc (broadcast_vote v st) = wf_windows desc st"
  "leader_window_offset (broadcast_vote v st) = leader_window_offset st"
  "current_leader_window_idx (broadcast_vote v st) = current_leader_window_idx st"
  "first_non_finalized_slot (broadcast_vote v st) = first_non_finalized_slot st"
  "pending_slots (broadcast_vote v st) = pending_slots st"
  "simplex_state.slot_votes (broadcast_vote v st) = simplex_state.slot_votes st"
  "num_validators (broadcast_vote v st) = num_validators st"
  "candidate_ids (broadcast_vote v st) = candidate_ids st"
  "first_non_progressed_slot (broadcast_vote v st) = first_non_progressed_slot st"
  "skip_intervals (broadcast_vote v st) = skip_intervals st"
  "skip_slot (broadcast_vote v st) = skip_slot st"
  "skip_timestamp (broadcast_vote v st) = skip_timestamp st"
  "timeout_base (broadcast_vote v st) = timeout_base st"
  "first_block_timeout (broadcast_vote v st) = first_block_timeout st"
  "target_rate_timeout (broadcast_vote v st) = target_rate_timeout st"
  "slots_per_leader_window (broadcast_vote v st) = slots_per_leader_window st"
  "max_leader_window_desync (broadcast_vote v st) = max_leader_window_desync st"
  "skipscan_invariant_warned (broadcast_vote v st) = skipscan_invariant_warned st"
  "startup_replay_active (broadcast_vote v st) = startup_replay_active st"
  "events (broadcast_vote v st) = events st @ [BroadcastVote v]"
  by (simp_all add: broadcast_vote_def push_event_back_def)

lemma push_event_back_frame [simp]:
  "slot_view desc (push_event_back e st) = slot_view desc st"
  "has_window (push_event_back e st) = has_window st"
  "wf_windows desc (push_event_back e st) = wf_windows desc st"
  "leader_window_offset (push_event_back e st) = leader_window_offset st"
  "current_leader_window_idx (push_event_back e st) = current_leader_window_idx st"
  "first_non_finalized_slot (push_event_back e st) = first_non_finalized_slot st"
  "pending_slots (push_event_back e st) = pending_slots st"
  "simplex_state.slot_votes (push_event_back e st) = simplex_state.slot_votes st"
  "num_validators (push_event_back e st) = num_validators st"
  "candidate_ids (push_event_back e st) = candidate_ids st"
  "first_non_progressed_slot (push_event_back e st) = first_non_progressed_slot st"
  "skip_intervals (push_event_back e st) = skip_intervals st"
  "skip_slot (push_event_back e st) = skip_slot st"
  "skip_timestamp (push_event_back e st) = skip_timestamp st"
  "timeout_base (push_event_back e st) = timeout_base st"
  "first_block_timeout (push_event_back e st) = first_block_timeout st"
  "target_rate_timeout (push_event_back e st) = target_rate_timeout st"
  "slots_per_leader_window (push_event_back e st) = slots_per_leader_window st"
  "max_leader_window_desync (push_event_back e st) = max_leader_window_desync st"
  "skipscan_invariant_warned (push_event_back e st) = skipscan_invariant_warned st"
  "startup_replay_active (push_event_back e st) = startup_replay_active st"
  "events (push_event_back e st) = events st @ [e]"
  by (simp_all add: push_event_back_def)

lemma put_slot_votes_frame [simp]:
  "slot_view desc (put_slot_votes s sv st) = slot_view desc st"
  "has_window (put_slot_votes s sv st) = has_window st"
  "wf_windows desc (put_slot_votes s sv st) = wf_windows desc st"
  "events (put_slot_votes s sv st) = events st"
  "leader_window_offset (put_slot_votes s sv st) = leader_window_offset st"
  "current_leader_window_idx (put_slot_votes s sv st) = current_leader_window_idx st"
  "first_non_finalized_slot (put_slot_votes s sv st) = first_non_finalized_slot st"
  "pending_slots (put_slot_votes s sv st) = pending_slots st"
  "num_validators (put_slot_votes s sv st) = num_validators st"
  "candidate_ids (put_slot_votes s sv st) = candidate_ids st"
  "first_non_progressed_slot (put_slot_votes s sv st) = first_non_progressed_slot st"
  "skip_intervals (put_slot_votes s sv st) = skip_intervals st"
  "skip_slot (put_slot_votes s sv st) = skip_slot st"
  "skip_timestamp (put_slot_votes s sv st) = skip_timestamp st"
  "timeout_base (put_slot_votes s sv st) = timeout_base st"
  "first_block_timeout (put_slot_votes s sv st) = first_block_timeout st"
  "target_rate_timeout (put_slot_votes s sv st) = target_rate_timeout st"
  "slots_per_leader_window (put_slot_votes s sv st) = slots_per_leader_window st"
  "max_leader_window_desync (put_slot_votes s sv st) = max_leader_window_desync st"
  "skipscan_invariant_warned (put_slot_votes s sv st) = skipscan_invariant_warned st"
  "startup_replay_active (put_slot_votes s sv st) = startup_replay_active st"
  by (simp_all add: put_slot_votes_def)

section \<open>The voting operations over the view\<close>

lemma try_final_view:
  "try_final desc s h st =
    (let st1 = ensure_window_exists (get_window_idx desc s) BoundedByHorizon st
     in if has_window st1 (get_window_idx desc s) \<and> should_vote_final h (slot_view desc st1 s)
        then put_slot desc s (\<lambda>x. x\<lparr>is_completed := True, voted_final := True\<rparr>)
               (broadcast_vote (Finalize \<lparr>fv_slot = s, fv_block_hash = h\<rparr>) st1)
        else st1)"
  by (simp add: try_final_def put_slot_def slot_view_def get_window_eq Let_def)

lemma try_notar_view:
  "try_notar desc s h parent st =
    (let st1 = ensure_window_exists (get_window_idx desc s) BoundedByHorizon st
     in if first_non_finalized_slot st \<le> s \<and> has_window st1 (get_window_idx desc s) \<and>
           voted_notar (slot_view desc st1 s) = None \<and>
           available_base (slot_view desc st1 s) = Some parent
        then (True, try_final desc s h
               (put_slot desc s
                  (\<lambda>x. x\<lparr>is_voted := True, voted_notar := Some \<lparr>cpi_slot = s, cpi_hash = h\<rparr>,
                         pending_block := None\<rparr>)
                  (broadcast_vote (Notarize \<lparr>nv_slot = s, nv_block_hash = h\<rparr>) st1)))
        else (False, st1))"
  by (auto simp: try_notar_def put_slot_def slot_view_def get_window_eq Let_def
      get_slot_available_base_def get_slot_ref_def split: option.splits)

lemma pending_at_view:
  "pending_at desc s st =
    (if has_window st (get_window_idx desc s) then pending_block (slot_view desc st s) else None)"
  by (simp add: pending_at_def slot_view_def get_window_eq)

lemma get_slot_available_base_view:
  "get_slot_available_base desc st s =
    (if first_non_finalized_slot st \<le> s \<and> has_window st (get_window_idx desc s)
     then available_base (slot_view desc st s) else None)"
  by (simp add: get_slot_available_base_def get_slot_ref_eq)

lemma is_slot_skipped_cert_view:
  "is_slot_skipped_cert desc st s \<longleftrightarrow>
     first_non_finalized_slot st \<le> s \<and> skipped (slot_view desc st s)"
  by (auto simp: is_slot_skipped_cert_def get_slot_ref_eq slot_view_none slot_default_def)

lemma is_slot_progressed_view:
  "is_slot_progressed desc st s \<longleftrightarrow>
     first_non_finalized_slot st \<le> s \<and>
     (skipped (slot_view desc st s) \<or> observed_notar_certificate (slot_view desc st s) \<noteq> None)"
  by (auto simp: is_slot_progressed_def get_slot_ref_eq slot_view_none slot_default_def)

lemma get_slot_mut_view:
  "get_slot_mut desc s alloc st =
    (if s < first_non_finalized_slot st then (None, st)
     else let st1 = ensure_window_exists (get_window_idx desc s) alloc st
          in (if has_window st1 (get_window_idx desc s) then Some (slot_view desc st1 s) else None,
              st1))"
  by (simp add: get_slot_mut_def slot_view_def get_window_eq Let_def)

end
