(* ===== verification/Simplex_Stable.thy ===== *)
theory Simplex_Stable
  imports Simplex_View
begin

text \<open>
  Interfaces for invariants of the machine.  Every operation of the machine is built
  from a few primitive updates: materialising a window, casting a vote under its guard,
  moving a cursor forward, recording a certificate.  The locales name these primitives
  as the laws an invariant has to satisfy; inside them each operation is shown, once, to
  preserve any predicate that satisfies the laws.  The invariants of the development are
  interpretations.
\<close>

section \<open>Stability under voting\<close>

abbreviation mark_voted_notar :: "slot_index \<Rightarrow> uint256 \<Rightarrow> slot \<Rightarrow> slot" where
  "mark_voted_notar s h x \<equiv>
     x\<lparr>is_voted := True, voted_notar := Some \<lparr>cpi_slot = s, cpi_hash = h\<rparr>, pending_block := None\<rparr>"

abbreviation mark_voted_final :: "slot \<Rightarrow> slot" where
  "mark_voted_final x \<equiv> x\<lparr>is_completed := True, voted_final := True\<rparr>"

abbreviation mark_voted_skip :: "slot \<Rightarrow> slot" where
  "mark_voted_skip x \<equiv> x\<lparr>is_voted := True, voted_skip := True, is_timeout_skipped := True\<rparr>"

lemma slot_of_window:
  assumes "wf_windows desc st" and "i < slots_per_window desc"
  shows "get_window_idx desc (w * slots_per_window desc + i) = w"
    and "get_slot_offset_in_window desc (w * slots_per_window desc + i) = i"
  using window_index_of_start [OF assms(2), of w] offset_of_start [OF assms(2), of w]
  by (simp_all add: get_window_idx_def get_slot_offset_in_window_def slots_per_window_def
      window_start_def first_slot_def)

locale voting_stable =
  fixes desc :: session_description
    and P :: "simplex_state \<Rightarrow> bool"
  assumes P_wf: "P st \<Longrightarrow> wf_windows desc st"
    and P_ensure: "P st \<Longrightarrow> P (ensure_window_exists idx alloc st)"
    and P_cast_notarize:
      "P st \<Longrightarrow> has_window st (get_window_idx desc s) \<Longrightarrow> first_non_finalized_slot st \<le> s \<Longrightarrow>
       voted_notar (slot_view desc st s) = None \<Longrightarrow>
       available_base (slot_view desc st s) = Some parent \<Longrightarrow>
       P (put_slot desc s (mark_voted_notar s h)
            (broadcast_vote (Notarize \<lparr>nv_slot = s, nv_block_hash = h\<rparr>) st))"
    and P_cast_finalize:
      "P st \<Longrightarrow> has_window st (get_window_idx desc s) \<Longrightarrow>
       should_vote_final h (slot_view desc st s) \<Longrightarrow>
       P (put_slot desc s mark_voted_final
            (broadcast_vote (Finalize \<lparr>fv_slot = s, fv_block_hash = h\<rparr>) st))"
    and P_cast_skip:
      "P st \<Longrightarrow> has_window st (get_window_idx desc s) \<Longrightarrow>
       \<not> voted_final (slot_view desc st s) \<Longrightarrow>
       P (put_slot desc s mark_voted_skip (broadcast_vote (Skip \<lparr>sv_slot = s\<rparr>) st))"
    and P_pending_block: "P st \<Longrightarrow> P (put_slot desc s (\<lambda>x. x\<lparr>pending_block := Some c\<rparr>) st)"
    and P_pending_slots: "P st \<Longrightarrow> P (st\<lparr>pending_slots := xs\<rparr>)"
    and P_candidate_ids: "P st \<Longrightarrow> P (st\<lparr>candidate_ids := m\<rparr>)"
    and P_had_timeouts: "P st \<Longrightarrow> P (update_window w (\<lambda>x. x\<lparr>lw_had_timeouts := True\<rparr>) st)"
    and P_timer:
      "P st \<Longrightarrow> skip_slot st \<le> n \<Longrightarrow> tb = timeout_base st \<or> tb = None \<Longrightarrow>
       P (st\<lparr>skip_slot := n, skip_timestamp := ts, timeout_base := tb\<rparr>)"
begin

lemma P_try_final: "P st \<Longrightarrow> P (try_final desc s h st)"
  by (simp add: try_final_view Let_def P_ensure P_cast_finalize)

lemma P_try_notar: "P st \<Longrightarrow> P (snd (try_notar desc s h parent st))"
  by (simp add: try_notar_view Let_def P_ensure P_try_final P_cast_notarize)

lemma P_check_pending_loop: "P st \<Longrightarrow> P (check_pending_loop desc xs st)"
proof (induction xs arbitrary: st)
  case Nil
  then show ?case by simp
next
  case (Cons x xs)
  show ?case
  proof (cases "try_notar desc x (ci_hash (cand_id (the (pending_at desc x st))))
      (parent_of_candidate (the (pending_at desc x st))) st")
    case (Pair b st1)
    then have "P st1"
      using P_try_notar [OF Cons.prems, of x "ci_hash (cand_id (the (pending_at desc x st)))"
          "parent_of_candidate (the (pending_at desc x st))"] by simp
    then have "P (check_pending_loop desc xs st1)"
        and "P (check_pending_loop desc xs (st1\<lparr>pending_slots := insort x (pending_slots st1)\<rparr>))"
      by (simp_all add: Cons.IH P_pending_slots)
    with Pair Cons.IH [OF Cons.prems] show ?thesis
      by (cases b) (auto split: option.split)
  qed
qed

lemma P_check_pending_blocks: "P st \<Longrightarrow> P (check_pending_blocks desc st)"
  by (simp add: check_pending_blocks_def P_check_pending_loop P_pending_slots)

lemma P_skip_slots:
  "P st \<Longrightarrow>
   \<forall>s \<in> set xs. get_window_idx desc s = w \<and> \<not> voted_final (slot_view desc st s) \<Longrightarrow>
   has_window st w \<Longrightarrow> P (skip_slots w xs st)"
proof (induction xs arbitrary: st)
  case Nil
  then show ?case by simp
next
  case (Cons s xs)
  let ?b = "broadcast_vote (Skip \<lparr>sv_slot = s\<rparr>) st"
  let ?st = "put_slot desc s mark_voted_skip ?b"
  have w: "get_window_idx desc s = w" using Cons.prems(2) by simp
  have wf: "wf_windows desc st" using Cons.prems(1) by (rule P_wf)
  have [simp]: "slots_per_leader_window st = opt_slots_per_leader_window (options desc)"
    using wf_windows_spw [OF wf] by (simp add: slots_per_window_def)
  have "P ?st" using Cons.prems w by (intro P_cast_skip) auto
  moreover have "has_window ?st w"
    using Cons.prems(3) by (simp add: put_slot_def broadcast_vote_def push_event_back_def has_window_def)
  moreover have "voted_final (slot_view desc ?st t) = voted_final (slot_view desc st t)" for t
    using wf
    by (subst slot_view_put_slot)
      (auto simp: broadcast_vote_def push_event_back_def slot_view_def wf_windows_def
        get_window_eq has_window_def)
  ultimately have "P (skip_slots w xs ?st)"
    using Cons.prems(2) by (intro Cons.IH) auto
  then show ?case
    by (simp add: put_slot_def get_slot_offset_in_window_def w)
qed

lemma P_try_skip_window:
  assumes "P st"
  shows "P (try_skip_window w st)"
proof -
  let ?e = "ensure_window_exists w BoundedByHorizon st"
  have p: "P ?e" using assms by (rule P_ensure)
  note wf = P_wf [OF p]
  show ?thesis
  proof (cases "has_window ?e w")
    case True
    have "P (skip_slots w (slots_to_skip w ?e) ?e)"
    proof (rule P_skip_slots [OF p _ True], intro ballI)
      fix s assume "s \<in> set (slots_to_skip w ?e)"
      then obtain i where i: "i < slots_per_window desc" "s = w * slots_per_window desc + i"
          "\<not> voted_final (lw_slots (leader_windows ?e ! (w - leader_window_offset ?e)) ! i)"
        using True wf_windows_spw [OF wf]
        by (auto simp: slots_to_skip_def get_window_eq)
      show "get_window_idx desc s = w \<and> \<not> voted_final (slot_view desc ?e s)"
        using i True slot_of_window [OF wf i(1), of w]
        by (simp add: slot_view_def get_window_eq)
    qed
    then show ?thesis by (simp add: try_skip_window_def Let_def)
  next
    case False
    then show ?thesis
      using p by (simp add: try_skip_window_def Let_def slots_to_skip_def get_window_eq)
  qed
qed

lemma P_skip_timer:
  "P st \<Longrightarrow> skip_slot st \<le> n \<Longrightarrow> P (st\<lparr>skip_slot := n, skip_timestamp := ts\<rparr>)"
  using P_timer [of st n "timeout_base st" ts] by simp

lemma P_disarm:
  "P st \<Longrightarrow> skip_slot st \<le> n \<Longrightarrow> P (st\<lparr>skip_slot := n, skip_timestamp := None, timeout_base := None\<rparr>)"
  using P_timer [of st n None None] by simp

lemma P_timeout_iteration:
  assumes "P st" and "timeout_iteration desc (ts, st, go) = (ts', st', go')"
  shows "P st'"
proof -
  let ?st1 = "st\<lparr>skip_slot := skip_slot st + 1, skip_timestamp := Some (ts + target_rate_timeout st)\<rparr>"
  let ?st2 = "ensure_window_exists (get_window_idx desc (skip_slot st)) BoundedByHorizon ?st1"
  let ?w = "get_window_idx desc (skip_slot st)"
  let ?st4 = "try_skip_window ?w (update_window ?w (\<lambda>w. w\<lparr>lw_had_timeouts := True\<rparr>) ?st2)"
  have p1: "P ?st1" using assms(1) by (intro P_skip_timer) auto
  then have p2: "P ?st2" by (rule P_ensure)
  then have p4: "P ?st4" by (intro P_try_skip_window P_had_timeouts)
  then have p5: "P (?st4\<lparr>skip_timestamp := None, timeout_base := None\<rparr>)"
    using P_disarm [OF p4, of "skip_slot ?st4"] by simp
  have p6: "P (?st4\<lparr>skip_slot := n, skip_timestamp := None, timeout_base := None\<rparr>)"
    if "skip_slot ?st4 < n" for n
    using that by (intro P_disarm [OF p4]) simp
  from assms(2) show ?thesis
    using p1 p2 p5 p6
    by (auto simp: timeout_iteration_def Let_def split: if_splits option.splits)
qed

lemma P_process_timeouts:
  assumes "P st" and "process_timeouts desc st = Some st'"
  shows "P st'"
proof (cases "skip_timestamp st")
  case None
  with assms show ?thesis by (simp add: process_timeouts_def)
next
  case (Some ts)
  with assms(2) obtain r where
    r: "while_option (timeouts_pending desc) (timeout_iteration desc) (ts, st, True) = Some r"
      "st' = fst (snd r)"
    by (auto simp: process_timeouts_def)
  have "(\<lambda>(ts, st, go). P st) r"
  proof (rule while_option_rule [OF _ r(1)])
    fix l assume "(\<lambda>(ts, st, go). P st) l" "timeouts_pending desc l"
    then show "(\<lambda>(ts, st, go). P st) (timeout_iteration desc l)"
      by (cases l; cases "timeout_iteration desc l") (auto intro: P_timeout_iteration)
  qed (simp add: assms(1))
  then show ?thesis using r(2) by (auto split: prod.splits)
qed

lemma P_check_all: "P st \<Longrightarrow> check_all desc st = Some st' \<Longrightarrow> P st'"
  by (auto simp: check_all_def elim!: bind_eq_SomeE intro: P_process_timeouts)

lemma P_on_candidate:
  assumes "P st"
  shows "P (snd (on_candidate desc cand st))"
proof -
  let ?s = "ci_slot (cand_id cand)" and ?h = "ci_hash (cand_id cand)"
  let ?w = "get_window_idx desc ?s"
  let ?st1 = "st\<lparr>candidate_ids := hm_insert ?h (cand_id cand) (candidate_ids st)\<rparr>"
  obtain ok st2 where t: "try_notar desc ?s ?h (parent_of_candidate cand) ?st1 = (ok, st2)"
    by fastforce
  have "P st2"
    using P_try_notar [OF P_candidate_ids, of st ?s ?h "parent_of_candidate cand"] assms t
    by (metis snd_conv)
  then have "P (check_pending_blocks desc st2)"
      and p3: "P (ensure_window_exists ?w BoundedByHorizon st2)"
    by (simp_all add: P_check_pending_blocks P_ensure)
  moreover have "P ((put_slot desc ?s (\<lambda>x. x\<lparr>pending_block := Some cand\<rparr>)
      (ensure_window_exists ?w BoundedByHorizon st2))\<lparr>pending_slots := xs\<rparr>)" for xs
    by (intro P_pending_slots P_pending_block p3)
  ultimately show ?thesis
    using t assms
    by (cases ok) (auto simp: on_candidate_def Let_def put_slot_def split: option.split)
qed

end

section \<open>Stability under parent-chain propagation\<close>

definition base_update :: "(slot \<Rightarrow> slot) \<Rightarrow> bool" where
  "base_update f \<longleftrightarrow> (\<forall>x. f x = x \<or> (\<exists>b. f x = x\<lparr>available_base := Some b\<rparr>))"

lemma base_update_max [simp]: "base_update (add_available_base_max b)"
  by (auto simp: base_update_def add_available_base_max_def split: option.split)

lemma base_update_if_none [simp]:
  "base_update (\<lambda>s. if available_base s = None then s\<lparr>available_base := Some b\<rparr> else s)"
  by (auto simp: base_update_def)

lemma base_update_set [simp]: "base_update (\<lambda>s. s\<lparr>available_base := Some b\<rparr>)"
  by (auto simp: base_update_def)

lemma advance_progress_cursor_ge:
  "first_non_progressed_slot st \<le> first_non_progressed_slot (advance_progress_cursor desc st)"
proof (induction desc st rule: advance_progress_cursor.induct)
  case (1 desc st)
  then show ?case
    by (subst advance_progress_cursor.simps) (auto simp del: One_nat_def)
qed

lemma advance_progress_cursor_closed:
  "advance_progress_cursor desc st =
     st\<lparr>first_non_progressed_slot := first_non_progressed_slot (advance_progress_cursor desc st)\<rparr>"
proof (induction desc st rule: advance_progress_cursor.induct)
  case (1 desc st)
  then show ?case
  proof (cases "0 < opt_slots_per_leader_window (options desc) \<and>
      is_slot_progressed desc st (first_non_progressed_slot st)")
    case True
    have eq: "advance_progress_cursor desc st = advance_progress_cursor desc
        (st\<lparr>first_non_progressed_slot := first_non_progressed_slot st + 1\<rparr>)"
      by (subst advance_progress_cursor.simps) (simp only: True simp_thms if_True)
    show ?thesis
      using 1 [OF True] unfolding eq by simp
  next
    case False
    have eq: "advance_progress_cursor desc st = st"
      by (subst advance_progress_cursor.simps) (simp only: False simp_thms if_False)
    show ?thesis unfolding eq by simp
  qed
qed

locale propagation_stable = voting_stable +
  assumes P_base: "P st \<Longrightarrow> base_update f \<Longrightarrow> P (put_slot desc s f st)"
    and P_skipped: "P st \<Longrightarrow> P (put_slot desc s (\<lambda>x. x\<lparr>skipped := True\<rparr>) st)"
    and P_notar:
      "P st \<Longrightarrow> cpi_slot p = s \<Longrightarrow>
       P (put_slot desc s (\<lambda>x. x\<lparr>observed_notar_certificate := Some p\<rparr>) st)"
    and P_cursor:
      "P st \<Longrightarrow> first_non_progressed_slot st \<le> n \<Longrightarrow> P (st\<lparr>first_non_progressed_slot := n\<rparr>)"
    and P_skip_intervals: "P st \<Longrightarrow> P (st\<lparr>skip_intervals := xs\<rparr>)"
    and P_warned: "P st \<Longrightarrow> P (st\<lparr>skipscan_invariant_warned := True\<rparr>)"
    and P_available_bases:
      "P st \<Longrightarrow> P (update_window w (\<lambda>x. x\<lparr>lw_available_bases := insert b (lw_available_bases x)\<rparr>) st)"
    and P_arm:
      "P st \<Longrightarrow> current_leader_window_idx st \<le> w \<Longrightarrow>
       P (set_timeouts desc (st\<lparr>current_leader_window_idx := w\<rparr>))"
    and P_backoff: "P st \<Longrightarrow> P (st\<lparr>first_block_timeout := d\<rparr>)"
    and P_restore: "P st \<Longrightarrow> P (restore_default_timeouts desc st)"
begin

lemma P_modify_base: "P st \<Longrightarrow> base_update f \<Longrightarrow> P (modify_slot desc s alloc f st)"
  by (simp add: modify_slot_eq P_base P_ensure)

lemma P_modify_skipped: "P st \<Longrightarrow> P (modify_slot desc s alloc (\<lambda>x. x\<lparr>skipped := True\<rparr>) st)"
  by (simp add: modify_slot_eq P_skipped P_ensure)

lemma P_modify_notar:
  "P st \<Longrightarrow> cpi_slot p = s \<Longrightarrow>
   P (modify_slot desc s alloc (\<lambda>x. x\<lparr>observed_notar_certificate := Some p\<rparr>) st)"
  by (simp add: modify_slot_eq P_notar P_ensure)

lemma P_skipped_at: "P st \<Longrightarrow> P (snd (is_slot_skipped_cert_at desc s alloc st))"
  by (cases alloc)
    (auto simp: is_slot_skipped_cert_at_def get_slot_mut_view Let_def P_ensure)

lemma P_warn: "P st \<Longrightarrow> P (warn_skipscan_invariant_once st)"
  by (simp add: warn_skipscan_invariant_once_def P_warned)

lemma P_fallback: "P st \<Longrightarrow> P (snd (fallback_scan_first_non_skipped desc s alloc n st))"
proof (induction n arbitrary: s st)
  case (Suc n)
  obtain b st1 where "is_slot_skipped_cert_at desc s alloc st = (b, st1)" by fastforce
  with Suc.IH [of st1] P_skipped_at [OF Suc.prems, of s alloc] show ?case
    by (cases b) auto
qed simp

lemma P_find_next: "P st \<Longrightarrow> P (snd (find_next_nonskipped_slot desc s alloc st))"
proof -
  assume p: "P st"
  obtain b st1 where 1: "is_slot_skipped_cert_at desc (s + 1) alloc st = (b, st1)" by fastforce
  have p1: "P st1" using P_skipped_at [OF p, of "s + 1" alloc] 1 by simp
  have "P (snd (is_slot_skipped_cert_at desc t alloc st1))" for t
    using p1 by (rule P_skipped_at)
  then have "P st2" if "is_slot_skipped_cert_at desc t alloc st1 = (c, st2)" for t c st2
    by (metis snd_conv that)
  with 1 p1 show ?thesis
    by (cases b)
      (auto simp: find_next_nonskipped_slot_def P_fallback P_warn split: option.split prod.split bool.split)
qed

lemma P_advance_progress_cursor: "P st \<Longrightarrow> P (advance_progress_cursor desc st)"
  by (subst advance_progress_cursor_closed) (simp add: P_cursor advance_progress_cursor_ge)

lemma P_maybe_jump: "P st \<Longrightarrow> P (maybe_jump_progress_cursor_after_finalization s st)"
  by (simp add: maybe_jump_progress_cursor_after_finalization_def P_cursor)

lemma P_propagate_notar: "P st \<Longrightarrow> P (propagate_base_after_notarization desc p st)"
  using P_find_next [of st "cpi_slot p" BoundedByHorizon]
  by (auto simp: propagate_base_after_notarization_def Let_def P_check_pending_blocks
      P_advance_progress_cursor P_modify_base split: prod.split option.split)

lemma P_apply_final:
  assumes "P st"
  shows "P (apply_final_cert_parent_chain_for_verified_certificate desc p st)"
proof -
  let ?e = "ensure_window_exists (get_window_idx desc (cpi_slot p)) VerifiedCertificate st"
  let ?m = "put_slot desc (cpi_slot p) (\<lambda>x. x\<lparr>observed_notar_certificate := Some p\<rparr>) ?e"
  have p: "P ?e" "P ?m" using assms by (simp_all add: P_ensure P_notar)
  have "P st'" if "find_next_nonskipped_slot desc (cpi_slot p) VerifiedCertificate ?e = (n, st')" for n st'
    by (metis P_find_next p(1) snd_conv that)
  moreover have "P st'" if "find_next_nonskipped_slot desc (cpi_slot p) VerifiedCertificate ?m = (n, st')" for n st'
    by (metis P_find_next p(2) snd_conv that)
  ultimately show ?thesis
    using assms p
    by (auto simp: apply_final_cert_parent_chain_for_verified_certificate_def get_slot_mut_view
        Let_def P_check_pending_blocks P_modify_base split: prod.split option.split)
qed

lemma P_propagate_skip: "P st \<Longrightarrow> P (snd (propagate_base_after_skip_cert desc s st))"
proof -
  assume p: "P st"
  let ?m = "modify_slot desc s BoundedByHorizon (\<lambda>x. x\<lparr>skipped := True\<rparr>) st"
  obtain n st2 where 2: "find_next_nonskipped_slot desc s BoundedByHorizon ?m = (n, st2)"
    by fastforce
  have p2: "P st2"
    by (metis "2" P_find_next P_modify_skipped p snd_conv)
  show ?thesis
    using p2
    by (auto simp: propagate_base_after_skip_cert_def Let_def 2 P_check_pending_blocks
        P_advance_progress_cursor P_modify_base P_skip_intervals
        update_skip_intervals_after_skip_cert_def split: option.split)
qed

lemma P_enter_leader_window:
  assumes "P st" and "current_leader_window_idx st \<le> w"
  shows "P (enter_leader_window desc w base st)"
proof -
  let ?st2 = "apply_adaptive_timeout_backoff desc st"
  have "P ?st2" and "current_leader_window_idx ?st2 = current_leader_window_idx st"
    using assms(1)
    by (auto simp: apply_adaptive_timeout_backoff_def Let_def P_backoff P_restore
        restore_default_timeouts_def [THEN arg_cong [of _ _ current_leader_window_idx]])
  then have "P (set_timeouts desc (?st2\<lparr>current_leader_window_idx := w\<rparr>))"
    using assms(2) by (intro P_arm) auto
  then show ?thesis
    by (auto simp: enter_leader_window_def Let_def
        intro!: P_modify_base P_available_bases P_ensure)
qed

lemma P_advance_leader_window:
  assumes "P st" and "advance_leader_window_on_progress_cursor desc st = Some st'"
  shows "P st'"
proof (cases "get_window_idx desc (first_non_progressed_slot st) \<le> current_leader_window_idx st \<or>
    startup_replay_active st")
  case True
  with assms show ?thesis
    by (auto simp: advance_leader_window_on_progress_cursor_def Let_def split: if_splits)
next
  case False
  let ?w = "get_window_idx desc (first_non_progressed_slot st)"
  obtain b st1 where b: "get_progress_cursor_base_or_panic desc st = Some (b, st1)"
      and st': "st' = enter_leader_window desc ?w b st1"
    using assms(2) False
    by (auto simp: advance_leader_window_on_progress_cursor_def Let_def elim!: bind_eq_SomeE)
  have "P st1" and "current_leader_window_idx st1 = current_leader_window_idx st"
    using b assms(1)
    by (auto simp: get_progress_cursor_base_or_panic_def get_slot_mut_view Let_def P_ensure
        split: if_splits option.splits)
  then show ?thesis
    using False unfolding st' by (intro P_enter_leader_window) auto
qed

lemma P_advance_skip_timer: "P st \<Longrightarrow> advance_skip_timer s st = Some st' \<Longrightarrow> P st'"
  by (auto simp: advance_skip_timer_def Let_def intro!: P_skip_timer
      elim!: bind_eq_SomeE split: if_splits option.splits)

lemma P_on_block_notarized:
  assumes "P st" and "on_block_notarized desc s h st = Some st'"
  shows "P st'"
proof -
  let ?p = "\<lparr>cpi_slot = s, cpi_hash = h\<rparr>"
  let ?st2 = "put_slot desc s (\<lambda>x. x\<lparr>observed_notar_certificate := Some ?p\<rparr>)
      (ensure_window_exists (get_window_idx desc s) BoundedByHorizon st)"
  have "P (propagate_base_after_notarization desc ?p ?st2)"
    using assms(1) by (simp add: P_propagate_notar P_notar P_ensure)
  then show ?thesis
    using assms
    by (auto simp: on_block_notarized_def Let_def put_slot_def [symmetric] intro!: P_try_final
        elim!: bind_eq_SomeE intro: P_advance_skip_timer P_advance_leader_window split: if_splits)
qed

end

end
