(* ===== verification/Simplex_Machine.thy ===== *)
theory Simplex_Machine
  imports Simplex_Stable
begin

text \<open>
  The whole machine: the well-formedness of its windows as the first interpretation of
  the stability interfaces, what the propagation operations leave alone, the transitions
  of a slot's vote accounting, and the interface for invariants of all live operations.
  The operations are collected in a datatype with one step function.
\<close>

section \<open>Windows stay well-formed\<close>

lemmas state_defs = set_timeouts_def restore_default_timeouts_def Let_def

interpretation wf: propagation_stable desc "wf_windows desc"
  by unfold_locales (auto simp: state_defs)

section \<open>What propagation leaves alone\<close>

definition same_accounting ::
  "session_description \<Rightarrow> simplex_state \<Rightarrow> simplex_state \<Rightarrow> bool" where
  "same_accounting desc st0 st \<longleftrightarrow>
     wf_windows desc st \<and>
     simplex_state.slot_votes st = simplex_state.slot_votes st0 \<and>
     num_validators st = num_validators st0 \<and>
     first_non_finalized_slot st = first_non_finalized_slot st0 \<and>
     leader_window_offset st = leader_window_offset st0 \<and>
     max_leader_window_desync st = max_leader_window_desync st0 \<and>
     startup_replay_active st = startup_replay_active st0"

interpretation frame: propagation_stable desc "same_accounting desc st0"
  by unfold_locales (auto simp: same_accounting_def state_defs)

lemma same_accounting_refl [simp]: "same_accounting desc st st = wf_windows desc st"
  by (simp add: same_accounting_def)

section \<open>Transitions of a slot's accounting\<close>

text \<open>A certificate is valid when its signers are distinct validators of the session
  whose weight reaches the threshold, it certifies the vote it is used for and each of
  its signatures is one of its signer over that vote.  What counts as a signature of a
  validator over a vote is the parameter \<open>auth\<close>; the receiver checks it before a vote or a
  certificate reaches the machine.\<close>

definition cert_signers :: "'v certificate \<Rightarrow> validator_index set" where
  "cert_signers c = vs_validator_idx ` set (cert_signatures c)"

type_synonym authority = "validator_index \<Rightarrow> vote \<Rightarrow> bytes \<Rightarrow> bool"

definition valid_cert ::
  "session_description \<Rightarrow> authority \<Rightarrow> vote \<Rightarrow> 'v \<Rightarrow> 'v certificate \<Rightarrow> bool" where
  "valid_cert desc auth vt v c \<longleftrightarrow>
     cert_vote c = v \<and> distinct (map vs_validator_idx (cert_signatures c)) \<and>
     cert_signers c \<subseteq> {..<get_total_nodes desc} \<and> has_sufficient_weight c desc \<and>
     (\<forall>x \<in> set (cert_signatures c). auth (vs_validator_idx x) vt (vs_signature x))"

abbreviation valid_notar_cert where
  "valid_notar_cert desc auth s h c \<equiv>
     valid_cert desc auth (Notarize \<lparr>nv_slot = s, nv_block_hash = h\<rparr>)
       \<lparr>nv_slot = s, nv_block_hash = h\<rparr> c"

abbreviation valid_final_cert where
  "valid_final_cert desc auth s h c \<equiv>
     valid_cert desc auth (Finalize \<lparr>fv_slot = s, fv_block_hash = h\<rparr>)
       \<lparr>fv_slot = s, fv_block_hash = h\<rparr> c"

abbreviation valid_skip_cert where
  "valid_skip_cert desc auth s c \<equiv> valid_cert desc auth (Skip \<lparr>sv_slot = s\<rparr>) \<lparr>sv_slot = s\<rparr> c"

text \<open>The transitions, with votes and certificates from outside signed when \<open>strict\<close>
  holds.\<close>

inductive sv_step ::
  "session_description \<Rightarrow> authority \<Rightarrow> bool \<Rightarrow> slot_index \<Rightarrow> slot_votes \<Rightarrow> slot_votes \<Rightarrow> bool"
  for desc :: session_description and auth :: authority and strict :: bool and slot :: slot_index where
  sv_same: "sv_step desc auth strict slot sv sv"
| sv_notarize_vote:
    "record_notarize_vote desc i v sig raw sv = (r, sv') \<Longrightarrow> nv_slot v = slot \<Longrightarrow>
     (strict \<longrightarrow> auth i (Notarize v) sig) \<Longrightarrow>
     sv_step desc auth strict slot sv sv'"
| sv_skip_vote:
    "record_skip_vote desc i v' sig raw sv = (r, sv') \<Longrightarrow> sv_slot v' = slot \<Longrightarrow>
     (strict \<longrightarrow> auth i (Skip v') sig) \<Longrightarrow>
     sv_step desc auth strict slot sv sv'"
| sv_finalize_vote:
    "record_finalize_vote desc i v'' sig raw sv = (r, sv') \<Longrightarrow> fv_slot v'' = slot \<Longrightarrow>
     (strict \<longrightarrow> auth i (Finalize v'') sig) \<Longrightarrow>
     sv_step desc auth strict slot sv sv'"
| sv_notarize_cert:
    "notarize_certificate sv = None \<Longrightarrow> (strict \<longrightarrow> valid_notar_cert desc auth slot h nc) \<Longrightarrow>
     sv' = (absorb_notarize_signatures desc slot h (cert_signatures nc)
              (sv\<lparr>notarize_certificate := Some nc\<rparr>))\<lparr>block_notarized_published := True\<rparr> \<Longrightarrow>
     sv_step desc auth strict slot sv sv'"
| sv_finalize_cert:
    "finalize_certificate sv = None \<Longrightarrow> (strict \<longrightarrow> valid_final_cert desc auth slot h fc) \<Longrightarrow>
     sv' = (absorb_finalize_signatures desc slot h (cert_signatures fc)
              (sv\<lparr>finalize_certificate := Some fc\<rparr>))\<lparr>block_finalized_published := True\<rparr> \<Longrightarrow>
     sv_step desc auth strict slot sv sv'"
| sv_skip_cert:
    "skip_certificate sv = None \<Longrightarrow> (strict \<longrightarrow> valid_skip_cert desc auth slot sc) \<Longrightarrow>
     sv' = (absorb_skip_signatures desc slot (cert_signatures sc)
              (sv\<lparr>skip_certificate := Some sc\<rparr>))\<lparr>slot_skipped_published := True\<rparr> \<Longrightarrow>
     sv_step desc auth strict slot sv sv'"
| sv_notarize_reached:
    "(h, w) \<in> set (notarize_weight_by_block sv) \<Longrightarrow> get_threshold_66 desc \<le> w \<Longrightarrow>
     store_notarize_certificate h (create_notarize_cert sv slot h)
       (sv\<lparr>block_notarized_published := True\<rparr>) = (Inr b, sv') \<Longrightarrow>
     sv_step desc auth strict slot sv sv'"
| sv_finalize_reached:
    "(h, w) \<in> set (finalize_weight_by_block sv) \<Longrightarrow> get_threshold_66 desc \<le> w \<Longrightarrow>
     store_finalize_certificate h (create_finalize_cert sv slot h)
       (sv\<lparr>block_finalized_published := True\<rparr>) = (Inr b, sv') \<Longrightarrow>
     sv_step desc auth strict slot sv sv'"
| sv_skip_reached:
    "get_threshold_66 desc \<le> skip_weight sv \<Longrightarrow>
     store_skip_certificate (create_skip_cert sv slot)
       (sv\<lparr>slot_skipped_published := True\<rparr>) = (Inr b, sv') \<Longrightarrow>
     sv_step desc auth strict slot sv sv'"

lemma create_cert_published [simp]:
  "create_notarize_cert (sv\<lparr>block_notarized_published := b\<rparr>) s h = create_notarize_cert sv s h"
  "create_finalize_cert (sv\<lparr>block_finalized_published := b\<rparr>) s h = create_finalize_cert sv s h"
  "create_skip_cert (sv\<lparr>slot_skipped_published := b\<rparr>) s = create_skip_cert sv s"
  by (simp_all add: create_notarize_cert_def create_finalize_cert_def create_skip_cert_def
      collect_notarize_signatures_def collect_finalize_signatures_def collect_skip_signatures_def
      enumerate_votes_def)

text \<open>What the threshold handlers keep of a slot's accounting.\<close>

definition same_tally :: "slot_votes \<Rightarrow> slot_votes \<Rightarrow> bool" where
  "same_tally sv sv' \<longleftrightarrow>
     votes sv' = votes sv \<and> notarize_weight_by_block sv' = notarize_weight_by_block sv \<and>
     finalize_weight_by_block sv' = finalize_weight_by_block sv \<and> skip_weight sv' = skip_weight sv"

lemma store_same_tally:
  "store_notarize_certificate h nc (sv\<lparr>block_notarized_published := True\<rparr>) = (r, sv') \<Longrightarrow> same_tally sv sv'"
  "store_finalize_certificate h fc (sv\<lparr>block_finalized_published := True\<rparr>) = (r, sv') \<Longrightarrow> same_tally sv sv'"
  "store_skip_certificate sc (sv\<lparr>slot_skipped_published := True\<rparr>) = (r', sv') \<Longrightarrow> same_tally sv sv'"
  by (auto simp: store_notarize_certificate_def store_finalize_certificate_def
      store_skip_certificate_def same_tally_def split: option.splits if_splits)

lemma same_tally_cert:
  assumes "same_tally sv sv'"
  shows "create_notarize_cert sv' s h = create_notarize_cert sv s h"
    and "create_finalize_cert sv' s h = create_finalize_cert sv s h"
    and "notarize_weight_by_block sv' = notarize_weight_by_block sv"
    and "finalize_weight_by_block sv' = finalize_weight_by_block sv"
  using assms
  by (simp_all add: same_tally_def create_notarize_cert_def create_finalize_cert_def
      collect_notarize_signatures_def collect_finalize_signatures_def enumerate_votes_def)

lemma same_tally_trans: "same_tally a b \<Longrightarrow> same_tally b c \<Longrightarrow> same_tally a c"
  by (simp add: same_tally_def)

lemma same_tally_refl [simp]: "same_tally a a"
  by (simp add: same_tally_def)

lemma slot_votes_at_get: "hm_get (simplex_state.slot_votes st) s = Some sv \<Longrightarrow> slot_votes_at s st = sv"
  by (simp add: slot_votes_at_def)

lemma hm_get_put_slot_votes [simp]:
  "hm_get (simplex_state.slot_votes (put_slot_votes s sv st)) t =
    (if s = t then Some sv else hm_get (simplex_state.slot_votes st) t)"
  by (simp add: put_slot_votes_def hm.get_insert)

lemma same_accounting_finalization:
  assumes "advance_present desc b s (record_missing_notarization desc s h st) = Some st'"
    and "wf_windows desc st"
  shows "same_accounting desc st st'"
proof -
  have "same_accounting desc st (record_missing_notarization desc s h st)"
    using assms(2)
    by (simp add: record_missing_notarization_def Let_def frame.P_propagate_notar frame.P_modify_notar)
  then show ?thesis
    using assms(1)
    by (auto simp: advance_present_def split: if_splits intro: frame.P_advance_leader_window
        [OF frame.P_advance_progress_cursor [OF frame.P_maybe_jump]])
qed

lemma same_accounting_skip:
  assumes "progress_after_skip desc s (put_slot desc s (\<lambda>x. x\<lparr>skipped := True\<rparr>)
      (ensure_window_exists w alloc st)) = Some st'"
    and "wf_windows desc st"
  shows "same_accounting desc st st'"
proof -
  let ?m = "put_slot desc s (\<lambda>x. x\<lparr>skipped := True\<rparr>) (ensure_window_exists w alloc st)"
  have "same_accounting desc st ?m"
    using assms(2) by (simp add: frame.P_skipped frame.P_ensure)
  then have "same_accounting desc st (snd (propagate_base_after_skip_cert desc s ?m))"
    by (rule frame.P_propagate_skip)
  with assms(1) show ?thesis
    by (auto simp: progress_after_skip_def split: prod.splits bool.splits
        intro: frame.P_advance_leader_window)
qed

lemma absorb_certificates [simp]:
  "skip_certificate (absorb_skip_signatures desc s sigs sv) = skip_certificate sv"
  "notarize_certificate (absorb_notarize_signatures desc s h sigs sv) = notarize_certificate sv"
  "finalize_certificate (absorb_finalize_signatures desc s h sigs sv) = finalize_certificate sv"
proof -
  have "skip_certificate (absorb_skip_signature desc s x sv) = skip_certificate sv"
    "notarize_certificate (absorb_notarize_signature desc s h x sv) = notarize_certificate sv"
    "finalize_certificate (absorb_finalize_signature desc s h x sv) = finalize_certificate sv" for x sv
    by (simp_all add: absorb_skip_signature_def absorb_notarize_signature_def
        absorb_finalize_signature_def Let_def split: option.split)
  then show
    "skip_certificate (absorb_skip_signatures desc s sigs sv) = skip_certificate sv"
    "notarize_certificate (absorb_notarize_signatures desc s h sigs sv) = notarize_certificate sv"
    "finalize_certificate (absorb_finalize_signatures desc s h sigs sv) = finalize_certificate sv"
    unfolding absorb_skip_signatures_def absorb_notarize_signatures_def absorb_finalize_signatures_def
    by (induction sigs arbitrary: sv) simp_all
qed

section \<open>Stability under all live operations\<close>

text \<open>What justifies an event the machine emits: the certificate it carries is stored in
  the slot's accounting, or has just been built from votes that reach the threshold.\<close>

definition final_backed ::
  "session_description \<Rightarrow> authority \<Rightarrow> bool \<Rightarrow> simplex_state \<Rightarrow> slot_index \<Rightarrow> uint256 \<Rightarrow> final_cert \<Rightarrow> bool" where
  "final_backed desc auth strict st s h c \<longleftrightarrow>
    (let sv = slot_votes_at s st
     in finalize_certificate sv = Some c \<and> (strict \<longrightarrow> valid_final_cert desc auth s h c) \<or>
        (\<exists>w. (h, w) \<in> set (finalize_weight_by_block sv) \<and> get_threshold_66 desc \<le> w \<and>
             c = create_finalize_cert sv s h))"

definition notar_backed ::
  "session_description \<Rightarrow> authority \<Rightarrow> bool \<Rightarrow> simplex_state \<Rightarrow> slot_index \<Rightarrow> uint256 \<Rightarrow> notar_cert \<Rightarrow> bool" where
  "notar_backed desc auth strict st s h c \<longleftrightarrow>
    (let sv = slot_votes_at s st
     in (strict \<longrightarrow> valid_notar_cert desc auth s h c) \<or>
        (\<exists>w. (h, w) \<in> set (notarize_weight_by_block sv) \<and> get_threshold_66 desc \<le> w \<and>
             c = create_notarize_cert sv s h))"

definition event_backed ::
  "session_description \<Rightarrow> authority \<Rightarrow> bool \<Rightarrow> simplex_state \<Rightarrow> simplex_event \<Rightarrow> bool" where
  "event_backed desc auth strict st e =
    (case e of
       BroadcastVote _ \<Rightarrow> False
     | SlotSkipped _ \<Rightarrow> True
     | BlockFinalized x \<Rightarrow>
         final_backed desc auth strict st (bfe_slot x) (bfe_block_hash x) (bfe_certificate x)
     | FinalizationReached x \<Rightarrow>
         final_backed desc auth strict st (fre_slot x) (fre_block_hash x) (fre_certificate x)
     | NotarizationReached x \<Rightarrow>
         notar_backed desc auth strict st (nre_slot x) (nre_block_hash x) (nre_certificate x)
     | SkipCertificateReached x \<Rightarrow>
         skip_certificate (slot_votes_at (scre_slot x) st) = Some (scre_certificate x))"

lemma slot_votes_at_frame [simp]:
  "slot_votes_at s (push_event_back e st) = slot_votes_at s st"
  "slot_votes_at s (put_slot_votes t sv st) = (if s = t then sv else slot_votes_at s st)"
  by (auto simp: slot_votes_at_def split: option.split)

locale machine_stable = propagation_stable +
  fixes auth :: authority and strict :: bool
  assumes P_votes:
      "P st \<Longrightarrow> sv_step desc auth strict s (slot_votes_at s st) sv \<Longrightarrow> P (put_slot_votes s sv st)"
    and P_event: "P st \<Longrightarrow> event_backed desc auth strict st e \<Longrightarrow> P (push_event_back e st)"
    and P_finalized:
      "P st \<Longrightarrow> first_non_finalized_slot st \<le> n \<Longrightarrow> P (st\<lparr>first_non_finalized_slot := n\<rparr>)"
    and P_cleanup: "P st \<Longrightarrow> P (cleanup_slots u st)"
begin

lemma P_advance_present: "P st \<Longrightarrow> advance_present desc b s st = Some st' \<Longrightarrow> P st'"
  by (auto simp: advance_present_def intro: P_advance_leader_window
      [OF P_advance_progress_cursor [OF P_maybe_jump]] split: if_splits)

lemma P_emit_finalized:
  "P st \<Longrightarrow> final_backed desc auth strict st s h c \<Longrightarrow> P (emit_finalized s h c b st)"
  by (simp add: emit_finalized_def Let_def P_event event_backed_def final_backed_def)

lemma P_emit_skipped:
  "P st \<Longrightarrow> skip_certificate (slot_votes_at s st) = c \<Longrightarrow> P (emit_skipped s c st)"
  by (simp add: emit_skipped_def Let_def P_event event_backed_def split: option.split)

lemma P_advance_finalized_boundary: "P st \<Longrightarrow> P (advance_finalized_boundary s st)"
  by (simp add: advance_finalized_boundary_def prune_skip_intervals_before_def
      P_skip_intervals P_finalized)

lemma P_record_missing: "P st \<Longrightarrow> P (record_missing_notarization desc s h st)"
  by (simp add: record_missing_notarization_def Let_def P_propagate_notar P_modify_notar)

lemma P_progress_after_skip: "P st \<Longrightarrow> progress_after_skip desc s st = Some st' \<Longrightarrow> P st'"
  using P_propagate_skip [of st s]
  by (auto simp: progress_after_skip_def split: prod.splits bool.splits
      intro: P_advance_leader_window)

lemma P_notarize_reached:
  assumes "P st" and "notarize_reached desc s h st = Some st'"
    and sv: "hm_get (simplex_state.slot_votes st) s = Some sv"
    and "(h, w) \<in> set (notarize_weight_by_block sv)" and "get_threshold_66 desc \<le> w"
  shows "P st' \<and> (\<exists>sv'. hm_get (simplex_state.slot_votes st') s = Some sv' \<and> same_tally sv sv')"
proof -
  let ?cert = "create_notarize_cert sv s h"
  obtain r sv1 where store:
    "store_notarize_certificate h ?cert (sv\<lparr>block_notarized_published := True\<rparr>) = (r, sv1)"
    by fastforce
  from assms(2) obtain b st1 where r: "r = Inr b"
    and st1: "st1 = put_slot_votes s sv1 st \<or>
        st1 = push_event_back (NotarizationReached
          \<lparr>nre_slot = s, nre_block_hash = h, nre_certificate = ?cert\<rparr>) (put_slot_votes s sv1 st)"
    and notar: "on_block_notarized desc s h st1 = Some st'"
    by (auto simp: notarize_reached_def sv store Let_def elim!: bind_eq_SomeE
        split: sum.splits bool.splits)
  have "sv_step desc auth strict s (slot_votes_at s st) sv1"
    using assms(4,5) store r unfolding slot_votes_at_get [OF sv]
    by (auto intro: sv_notarize_reached)
  then have "P (put_slot_votes s sv1 st)" by (rule P_votes [OF assms(1)])
  moreover have "event_backed desc auth strict (put_slot_votes s sv1 st) (NotarizationReached
      \<lparr>nre_slot = s, nre_block_hash = h, nre_certificate = ?cert\<rparr>)"
    using assms(4,5) same_tally_cert [OF store_same_tally(1) [OF store]]
    by (auto simp: event_backed_def notar_backed_def)
  ultimately have p1: "P st1" using st1 by (auto intro: P_event)
  then have "P st'" using notar by (rule P_on_block_notarized)
  moreover have "same_accounting desc st1 st'"
    using P_wf [OF p1] notar by (intro frame.P_on_block_notarized [OF _ notar]) simp
  then have "hm_get (simplex_state.slot_votes st') s = Some sv1"
    using st1 by (auto simp: same_accounting_def)
  ultimately show ?thesis using store_same_tally(1) [OF store] by blast
qed

lemma P_notarize_loop:
  assumes "P st" and "notarize_threshold_loop desc s pub xs st = Some st'"
    and "hm_get (simplex_state.slot_votes st) s = Some sv"
    and "set xs \<subseteq> set (notarize_weight_by_block sv)"
  shows "P st' \<and> (\<exists>sv'. hm_get (simplex_state.slot_votes st') s = Some sv' \<and> same_tally sv sv')"
  using assms
proof (induction xs arbitrary: st sv)
  case Nil
  then show ?case by auto
next
  case (Cons x xs)
  obtain h w where x: "x = (h, w)" by fastforce
  show ?case
  proof (cases "\<not> pub \<and> get_threshold_66 desc \<le> w")
    case True
    with Cons.prems(2) x obtain st1 where
      1: "notarize_reached desc s h st = Some st1"
      and 2: "notarize_threshold_loop desc s pub xs st1 = Some st'"
      by (auto elim!: bind_eq_SomeE)
    obtain sv1 where p1: "P st1" "hm_get (simplex_state.slot_votes st1) s = Some sv1" "same_tally sv sv1"
      using P_notarize_reached [OF Cons.prems(1) 1 Cons.prems(3), of w] Cons.prems(4) True x
      by auto
    have "set xs \<subseteq> set (notarize_weight_by_block sv1)"
      using Cons.prems(4) p1(3) by (simp add: same_tally_def)
    from Cons.IH [OF p1(1) 2 p1(2) this] p1(3) show ?thesis
      using same_tally_trans by blast
  next
    case False
    with Cons x show ?thesis by (auto split: if_splits)
  qed
qed

lemma P_finalize_reached:
  assumes "P st" and "finalize_reached desc s h st = Some (ret, st')"
    and sv: "hm_get (simplex_state.slot_votes st) s = Some sv"
    and "(h, w) \<in> set (finalize_weight_by_block sv)" and "get_threshold_66 desc \<le> w"
  shows "P st' \<and> (\<exists>sv'. hm_get (simplex_state.slot_votes st') s = Some sv' \<and> same_tally sv sv')"
proof -
  let ?cert = "create_finalize_cert sv s h"
  obtain r sv1 where store:
    "store_finalize_certificate h ?cert (sv\<lparr>block_finalized_published := True\<rparr>) = (r, sv1)"
    by fastforce
  obtain b where r: "r = Inr b"
    using assms(2) by (cases r) (auto simp: finalize_reached_def sv store Let_def)
  define st2 where "st2 = advance_finalized_boundary s
      (emit_finalized s h ?cert b (put_slot_votes s sv1 st))"
  define st3 where "st3 = record_missing_notarization desc s h st2"
  have fin: "advance_present desc (first_non_progressed_slot st2 \<le> s) s st3 = Some st'"
    using assms(2) by (auto simp: finalize_reached_def sv store r Let_def st2_def st3_def)
  have "sv_step desc auth strict s (slot_votes_at s st) sv1"
    using assms(4,5) store r unfolding slot_votes_at_get [OF sv]
    by (auto intro: sv_finalize_reached)
  then have "P (put_slot_votes s sv1 st)" by (rule P_votes [OF assms(1)])
  moreover have "final_backed desc auth strict (put_slot_votes s sv1 st) s h ?cert"
    using assms(4,5) same_tally_cert [OF store_same_tally(2) [OF store]]
    by (auto simp: final_backed_def)
  ultimately have p2: "P st2"
    by (simp add: st2_def P_advance_finalized_boundary P_emit_finalized)
  then have "P st'"
    using fin by (auto simp: st3_def intro: P_advance_present [OF P_record_missing])
  moreover have "hm_get (simplex_state.slot_votes st') s = Some sv1"
    using P_wf [OF p2] same_accounting_finalization [OF fin [unfolded st3_def]]
    by (simp add: same_accounting_def st2_def emit_finalized_def advance_finalized_boundary_def
        prune_skip_intervals_before_def Let_def)
  ultimately show ?thesis using store_same_tally(2) [OF store] by blast
qed

lemma P_finalize_loop:
  assumes "P st" and "finalize_threshold_loop desc s xs st = Some (ret, st')"
    and "hm_get (simplex_state.slot_votes st) s = Some sv"
    and "set xs \<subseteq> set (finalize_weight_by_block sv)"
  shows "P st' \<and> (\<exists>sv'. hm_get (simplex_state.slot_votes st') s = Some sv' \<and> same_tally sv sv')"
  using assms
proof (induction xs arbitrary: st)
  case Nil
  then show ?case by auto
next
  case (Cons x xs)
  then show ?case
    by (cases x) (auto split: if_splits dest: P_finalize_reached)
qed

lemma P_skip_reached:
  assumes "P st" and "skip_reached desc s st = Some st'"
    and sv: "hm_get (simplex_state.slot_votes st) s = Some sv"
    and "get_threshold_66 desc \<le> skip_weight sv"
  shows "P st'"
proof -
  let ?cert = "create_skip_cert sv s"
  obtain b sv1 where store:
    "store_skip_certificate ?cert (sv\<lparr>slot_skipped_published := True\<rparr>) = (Inr b, sv1)"
    by (cases "skip_certificate sv") (auto simp: store_skip_certificate_def)
  have "sv_step desc auth strict s (slot_votes_at s st) sv1"
    using assms(4) store unfolding slot_votes_at_get [OF sv] by (auto intro: sv_skip_reached)
  then have "P (emit_skipped s (skip_certificate sv1) (put_slot_votes s sv1 st))"
    by (intro P_emit_skipped P_votes [OF assms(1)]) simp_all
  moreover have "(if b then Some ?cert else skip_certificate sv1) = skip_certificate sv1"
    using store by (auto simp: store_skip_certificate_def split: if_splits)
  ultimately show ?thesis
    using assms(2)
    by (cases b) (auto simp: skip_reached_def sv store Let_def intro: P_progress_after_skip)
qed

lemma P_check_thresholds:
  assumes "P st" and "check_thresholds_and_trigger desc s st = Some st'"
  shows "P st'"
proof (cases "hm_get (simplex_state.slot_votes st) s")
  case None
  with assms show ?thesis
    by (auto simp: check_thresholds_and_trigger_def elim!: bind_eq_SomeE)
next
  case (Some sv)
  obtain st1 where 1: "notarize_threshold_loop desc s (block_notarized_published sv)
      (notarize_weight_by_block sv) st = Some st1"
    using assms(2) Some by (auto simp: check_thresholds_and_trigger_def elim!: bind_eq_SomeE)
  obtain sv1 where p1: "P st1" "hm_get (simplex_state.slot_votes st1) s = Some sv1" "same_tally sv sv1"
    using P_notarize_loop [OF assms(1) 1 Some] by auto
  obtain ret st2 where 2: "(if \<not> block_finalized_published sv
      then finalize_threshold_loop desc s (finalize_weight_by_block sv) st1
      else Some (False, st1)) = Some (ret, st2)"
    using assms(2) Some 1 by (auto simp: check_thresholds_and_trigger_def elim!: bind_eq_SomeE)
  obtain sv2 where p2: "P st2" "hm_get (simplex_state.slot_votes st2) s = Some sv2" "same_tally sv sv2"
    using 2 p1 P_finalize_loop [OF p1(1) _ p1(2), of "finalize_weight_by_block sv" ret st2]
    by (auto simp: same_tally_def split: if_splits)
  show ?thesis
    using assms(2) Some 1 2 p2 P_skip_reached [OF p2(1) _ p2(2), of st']
    by (auto simp: check_thresholds_and_trigger_def same_tally_def elim!: bind_eq_SomeE
        split: if_splits)
qed

lemma P_handle_vote:
  "P st \<Longrightarrow> strict \<longrightarrow> auth i v sig \<Longrightarrow> P (snd (handle_vote desc i v sig raw st))"
  by (cases v)
    (auto simp: handle_vote_def handle_notarize_vote_def handle_skip_vote_def
      handle_finalize_vote_def split: prod.split
      intro!: P_votes intro: sv_notarize_vote sv_skip_vote sv_finalize_vote)

lemma P_on_vote:
  assumes "P st" and "on_vote desc i v sig raw st = Some (r, st')" and "strict \<longrightarrow> auth i v sig"
  shows "P st'"
proof -
  obtain r1 st1 where h: "handle_vote desc i v sig raw st = (r1, st1)" by fastforce
  then have "P st1" using P_handle_vote [OF assms(1,3), of raw] by simp
  then show ?thesis
    using assms h
    by (auto simp: on_vote_def Let_def intro: P_check_thresholds split: if_splits)
qed

lemma P_set_notarize_certificate:
  assumes "P st" and "set_notarize_certificate desc s h c st = Some (r, st')"
    and ok: "strict \<longrightarrow> valid_notar_cert desc auth s h c"
  shows "P st'"
proof (cases "notarize_certificate (slot_votes_at s st)")
  case None
  have "P (put_slot_votes s ((absorb_notarize_signatures desc s h (cert_signatures c)
      ((slot_votes_at s st)\<lparr>notarize_certificate := Some c\<rparr>))
        \<lparr>block_notarized_published := True\<rparr>) st)"
    (is "P ?st1")
    by (intro P_votes [OF assms(1)] sv_notarize_cert [OF None ok]) (rule refl)
  moreover from this have "P (push_event_back (NotarizationReached
      \<lparr>nre_slot = s, nre_block_hash = h, nre_certificate = c\<rparr>) ?st1)" (is "P ?st2")
    using ok by (intro P_event) (auto simp: event_backed_def notar_backed_def)
  note P_on_block_notarized [OF this, of s h st']
  ultimately show ?thesis
    using assms(2) None
    by (auto simp: set_notarize_certificate_def store_notarize_certificate_def Let_def
        split: if_splits)
next
  case (Some c')
  then show ?thesis
    using assms P_votes [OF assms(1) sv_same]
    by (auto simp: set_notarize_certificate_def store_notarize_certificate_def split: if_splits)
qed

lemma P_set_finalize_certificate:
  assumes "P st" and "set_finalize_certificate desc s h c st = Some (r, st')"
    and ok: "strict \<longrightarrow> valid_final_cert desc auth s h c"
  shows "P st'"
proof (cases "s < first_non_finalized_slot st \<or> finalize_certificate (slot_votes_at s st) \<noteq> None")
  case False
  then have None: "finalize_certificate (slot_votes_at s st) = None" by simp
  have "P (put_slot_votes s ((absorb_finalize_signatures desc s h (cert_signatures c)
      ((slot_votes_at s st)\<lparr>finalize_certificate := Some c\<rparr>))
        \<lparr>block_finalized_published := True\<rparr>) st)"
    (is "P ?st1")
    by (intro P_votes [OF assms(1)] sv_finalize_cert [OF None ok]) (rule refl)
  then have "P (advance_finalized_boundary s
      (apply_final_cert_parent_chain_for_verified_certificate desc
         \<lparr>cpi_slot = s, cpi_hash = h\<rparr> (emit_finalized s h c True ?st1)))"
    using ok
    by (intro P_advance_finalized_boundary P_apply_final P_emit_finalized)
      (auto simp: final_backed_def)
  note P_advance_present [OF this, of "first_non_progressed_slot st \<le> s" s st']
  with assms(2) None False show ?thesis
    by (auto simp: set_finalize_certificate_def store_finalize_certificate_def Let_def)
next
  case True
  then show ?thesis
    using assms P_votes [OF assms(1) sv_same]
    by (auto simp: set_finalize_certificate_def store_finalize_certificate_def split: if_splits)
qed

lemma P_set_skip_certificate:
  assumes "P st" and "set_skip_certificate desc s c st = Some (r, st')"
    and ok: "strict \<longrightarrow> valid_skip_cert desc auth s c"
  shows "P st'"
proof (cases "s < first_non_finalized_slot st \<or> skip_certificate (slot_votes_at s st) \<noteq> None")
  case False
  then have None: "skip_certificate (slot_votes_at s st) = None" by simp
  let ?st1 = "put_slot_votes s ((absorb_skip_signatures desc s (cert_signatures c)
      ((slot_votes_at s st)\<lparr>skip_certificate := Some c\<rparr>))\<lparr>slot_skipped_published := True\<rparr>) st"
  have p1: "P ?st1"
    by (intro P_votes [OF assms(1)] sv_skip_cert [OF None ok]) (rule refl)
  have "slots_per_leader_window st = opt_slots_per_leader_window (options desc)"
    using wf_windows_spw [OF P_wf [OF assms(1)]] by (simp add: slots_per_window_def)
  with assms(2) None False obtain st4 where
    "progress_after_skip desc s (put_slot desc s (\<lambda>x. x\<lparr>skipped := True\<rparr>)
       (ensure_window_exists (get_window_idx desc s) BoundedByHorizon ?st1)) = Some st4"
    "st' = emit_skipped s (Some c) st4"
    by (auto simp: set_skip_certificate_def store_skip_certificate_def Let_def
        get_window_idx_def get_slot_offset_in_window_def put_slot_def)
  moreover from this(1) have "same_accounting desc ?st1 st4"
    using P_wf [OF p1] by (intro same_accounting_skip) auto
  then have "skip_certificate (slot_votes_at s st4) = Some c"
    by (simp add: same_accounting_def slot_votes_at_def)
  ultimately show ?thesis
    using P_progress_after_skip [OF P_skipped [OF P_ensure [OF p1]]] P_emit_skipped by blast
next
  case True
  then show ?thesis
    using assms P_votes [OF assms(1) sv_same]
    by (auto simp: set_skip_certificate_def store_skip_certificate_def split: if_splits)
qed

end

section \<open>Cleanup\<close>

lemma drop_old_windows_drop:
  obtains k where "drop_old_windows spw b ws off = (drop k ws, off + k)" "k \<le> length ws"
    "\<forall>i<k. lw_start_slot (ws ! i) + spw \<le> b"
proof -
  have "\<exists>k. drop_old_windows spw b ws off = (drop k ws, off + k) \<and> k \<le> length ws \<and>
      (\<forall>i<k. lw_start_slot (ws ! i) + spw \<le> b)"
  proof (induction ws arbitrary: off)
    case (Cons w ws)
    show ?case
    proof (cases "lw_start_slot w + spw \<le> b")
      case True
      obtain k where "drop_old_windows spw b ws (off + 1) = (drop k ws, off + 1 + k)"
          "k \<le> length ws" "\<forall>i<k. lw_start_slot (ws ! i) + spw \<le> b"
        using Cons.IH by blast
      with True show ?thesis
        by (intro exI [of _ "Suc k"]) (auto simp: less_Suc_eq_0_disj)
    next
      case False
      then show ?thesis by (intro exI [of _ 0]) simp
    qed
  qed simp
  then show ?thesis using that by blast
qed

lemma cleanup_slots_windows:
  obtains k where "leader_windows (cleanup_slots u st) = drop k (leader_windows st)"
    "leader_window_offset (cleanup_slots u st) = leader_window_offset st + k"
    "k \<le> length (leader_windows st)"
    "\<forall>i<k. lw_start_slot (leader_windows st ! i) + slots_per_leader_window st
             \<le> first_non_finalized_slot st"
proof (cases "min u (first_non_finalized_slot st) = 0")
  case True
  then show ?thesis using that [of 0] by (simp add: cleanup_slots_def)
next
  case False
  obtain k where "drop_old_windows (slots_per_leader_window st)
      (min u (first_non_finalized_slot st)) (leader_windows st) (leader_window_offset st) =
      (drop k (leader_windows st), leader_window_offset st + k)" "k \<le> length (leader_windows st)"
      "\<forall>i<k. lw_start_slot (leader_windows st ! i) + slots_per_leader_window st
             \<le> min u (first_non_finalized_slot st)"
    by (rule drop_old_windows_drop)
  with False show ?thesis by (intro that [of k]) (auto simp: cleanup_slots_def Let_def)
qed

lemma cleanup_slots_frame [simp]:
  "events (cleanup_slots u st) = events st"
  "current_leader_window_idx (cleanup_slots u st) = current_leader_window_idx st"
  "first_non_finalized_slot (cleanup_slots u st) = first_non_finalized_slot st"
  "pending_slots (cleanup_slots u st) = pending_slots st"
  "num_validators (cleanup_slots u st) = num_validators st"
  "first_non_progressed_slot (cleanup_slots u st) = first_non_progressed_slot st"
  "skip_intervals (cleanup_slots u st) = skip_intervals st"
  "skip_slot (cleanup_slots u st) = skip_slot st"
  "skip_timestamp (cleanup_slots u st) = skip_timestamp st"
  "timeout_base (cleanup_slots u st) = timeout_base st"
  "target_rate_timeout (cleanup_slots u st) = target_rate_timeout st"
  "slots_per_leader_window (cleanup_slots u st) = slots_per_leader_window st"
  "max_leader_window_desync (cleanup_slots u st) = max_leader_window_desync st"
  "startup_replay_active (cleanup_slots u st) = startup_replay_active st"
  by (simp_all add: cleanup_slots_def Let_def split: prod.split)

lemma wf_windows_cleanup [simp]: "wf_windows desc st \<Longrightarrow> wf_windows desc (cleanup_slots u st)"
  by (rule cleanup_slots_windows [of u st]) (auto simp: wf_windows_def add.assoc)

lemma slot_view_cleanup:
  assumes "leader_window_offset (cleanup_slots u st) \<le> get_window_idx desc s"
  shows "slot_view desc (cleanup_slots u st) s = slot_view desc st s"
proof -
  obtain k where "leader_windows (cleanup_slots u st) = drop k (leader_windows st)"
    "leader_window_offset (cleanup_slots u st) = leader_window_offset st + k"
    "k \<le> length (leader_windows st)"
    by (rule cleanup_slots_windows [of u st])
  with assms show ?thesis
    by (auto simp: slot_view_def get_window_eq has_window_def)
qed

interpretation wf: machine_stable desc "wf_windows desc" auth False
  by unfold_locales auto

section \<open>Operations and runs\<close>

text \<open>The calls a session makes on the machine while it is live, each at a reading of the
  clock; a pulled event is the output of its step.\<close>

datatype fsm_op =
  OnCandidate candidate
| OnVote validator_index vote bytes raw_vote_data
| SetNotarizeCertificate slot_index uint256 notar_cert
| SetFinalizeCertificate slot_index uint256 final_cert
| SetSkipCertificate slot_index skip_cert
| CheckAll
| CleanupSlots slot_index
| PullEvent
| ResetTimeoutsOnStart

definition at_time :: "system_time \<Rightarrow> session_description \<Rightarrow> session_description" where
  "at_time t desc = desc\<lparr>system_now := t\<rparr>"

definition fsm_step ::
  "session_description \<Rightarrow> fsm_op \<Rightarrow> simplex_state \<Rightarrow> (simplex_event list \<times> simplex_state) option" where
  "fsm_step desc op st =
    (case op of
       OnCandidate c \<Rightarrow> Some ([], snd (on_candidate desc c st))
     | OnVote i v sig raw \<Rightarrow> map_option (\<lambda>(r, st'). ([], st')) (on_vote desc i v sig raw st)
     | SetNotarizeCertificate s h c \<Rightarrow>
         map_option (\<lambda>(r, st'). ([], st')) (set_notarize_certificate desc s h c st)
     | SetFinalizeCertificate s h c \<Rightarrow>
         map_option (\<lambda>(r, st'). ([], st')) (set_finalize_certificate desc s h c st)
     | SetSkipCertificate s c \<Rightarrow>
         map_option (\<lambda>(r, st'). ([], st')) (set_skip_certificate desc s c st)
     | CheckAll \<Rightarrow> map_option (Pair []) (check_all desc st)
     | CleanupSlots s \<Rightarrow> Some ([], cleanup_slots s st)
     | PullEvent \<Rightarrow>
        (case pull_event st of (None, st') \<Rightarrow> Some ([], st') | (Some e, st') \<Rightarrow> Some ([e], st'))
     | ResetTimeoutsOnStart \<Rightarrow> Some ([], reset_timeouts_on_start desc st))"

text \<open>\<open>fsm_run desc ops st\<close> performs the operations in order; the outputs are appended.\<close>

fun fsm_run ::
  "session_description \<Rightarrow> (system_time \<times> fsm_op) list \<Rightarrow> simplex_state \<Rightarrow>
   (simplex_event list \<times> simplex_state) option" where
  "fsm_run desc [] st = Some ([], st)"
| "fsm_run desc ((t, op) # ops) st = do {
     (out, st1) \<leftarrow> fsm_step (at_time t desc) op st;
     (outs, st2) \<leftarrow> fsm_run desc ops st1;
     Some (out @ outs, st2) }"

text \<open>The events of a run of a freshly constructed machine, pulled or still queued; a run
  that panics has none.\<close>

definition run_outputs ::
  "session_description \<Rightarrow> (system_time \<times> fsm_op) list \<Rightarrow> simplex_event list" where
  "run_outputs desc ops =
    (case simplex_state_new desc of
       None \<Rightarrow> []
     | Some st0 \<Rightarrow>
        (case fsm_run desc ops st0 of
           None \<Rightarrow> []
         | Some (outs, st) \<Rightarrow> outs @ events st))"

lemma run_outputsE:
  assumes "e \<in> set (run_outputs desc ops)"
  obtains st0 outs st where "simplex_state_new desc = Some st0"
    "fsm_run desc ops st0 = Some (outs, st)" "e \<in> set (outs @ events st)"
  using assms
  by (cases "simplex_state_new desc"; cases "fsm_run desc ops (the (simplex_state_new desc))")
    (auto simp: run_outputs_def)

lemma at_time_simps [simp]:
  "options (at_time t desc) = options desc"
  "sources (at_time t desc) = sources desc"
  "total_weight (at_time t desc) = total_weight desc"
  "slots_per_window (at_time t desc) = slots_per_window desc"
  "get_window_idx (at_time t desc) = get_window_idx desc"
  "get_slot_offset_in_window (at_time t desc) = get_slot_offset_in_window desc"
  "get_node_weight (at_time t desc) = get_node_weight desc"
  "get_threshold_66 (at_time t desc) = get_threshold_66 desc"
  "get_total_nodes (at_time t desc) = get_total_nodes desc"
  "wf_windows (at_time t desc) = wf_windows desc"
  "slot_view (at_time t desc) = slot_view desc"
  by (simp_all add: at_time_def slots_per_window_def get_window_idx_def fun_eq_iff
      get_slot_offset_in_window_def get_node_weight_def get_threshold_66_def get_total_nodes_def
      wf_windows_def slot_view_def split: option.split)

text \<open>The operations that bring a vote or a certificate bring a signed one.\<close>

definition valid_op :: "session_description \<Rightarrow> authority \<Rightarrow> fsm_op \<Rightarrow> bool" where
  "valid_op desc auth op =
    (case op of
       OnVote i v sig raw \<Rightarrow> auth i v sig
     | SetNotarizeCertificate s h c \<Rightarrow> valid_notar_cert desc auth s h c
     | SetFinalizeCertificate s h c \<Rightarrow> valid_final_cert desc auth s h c
     | SetSkipCertificate s c \<Rightarrow> valid_skip_cert desc auth s c
     | _ \<Rightarrow> True)"

context machine_stable
begin

text \<open>The operations other than the event queue keep the invariant.\<close>

lemma P_fsm_step:
  assumes "P st" and "fsm_step desc op st = Some (out, st')"
    and "op \<noteq> PullEvent" and "strict \<longrightarrow> valid_op desc auth op"
  shows "P st'"
proof -
  have "P (reset_timeouts_on_start desc st)"
    using P_arm [OF P_restore [OF assms(1)], of "current_leader_window_idx st"]
    by (simp add: reset_timeouts_on_start_def restore_default_timeouts_def)
  then show ?thesis
    using assms
    by (cases op)
      (auto simp: fsm_step_def valid_op_def P_on_candidate P_cleanup split: prod.splits
        intro: P_on_vote P_set_notarize_certificate P_set_finalize_certificate
          P_set_skip_certificate P_check_all)
qed

end

end
