(* ===== verification/Simplex_Accounting.thy ===== *)
theory Simplex_Accounting
  imports Simplex_Machine
begin

text \<open>
  Vote accounting is exact: the running weights of a slot are the sums over the recorded
  votes, every validator's votes satisfy the two asserted invariants, and a stored
  certificate is valid.  The quorum locale turns the two-thirds threshold into quorum
  intersection, from which at most one block of a slot passes the threshold.
\<close>

section \<open>Quorums\<close>

locale quorum_system =
  fixes weight :: "'v \<Rightarrow> nat" and members :: "'v set" and threshold :: nat and ok :: bool
  assumes finite_members: "finite members"
    and strict_two_thirds: "ok \<Longrightarrow> 2 * sum weight members < 3 * threshold"
begin

lemma quorum_intersection:
  assumes ok "A \<subseteq> members" "B \<subseteq> members" "threshold \<le> sum weight A" "threshold \<le> sum weight B"
  shows "sum weight members < 3 * sum weight (A \<inter> B)"
proof -
  have fin: "finite A" "finite B"
    using assms finite_members by (auto intro: finite_subset)
  have "sum weight (A \<union> B) \<le> sum weight members"
    using assms finite_members by (intro sum_mono2) auto
  moreover have "sum weight (A \<union> B) + sum weight (A \<inter> B) = sum weight A + sum weight B"
    using sum.union_inter [OF fin, of weight] by simp
  ultimately show ?thesis
    using strict_two_thirds [OF assms(1)] assms(4,5) by linarith
qed

lemma quorums_meet:
  assumes ok "A \<subseteq> members" "B \<subseteq> members" "threshold \<le> sum weight A" "threshold \<le> sum weight B"
  shows "A \<inter> B \<noteq> {}"
  using quorum_intersection [OF assms] by auto

end

lemma sum_list_nth: "sum_list xs = (\<Sum>i<length xs. xs ! i)" for xs :: "nat list"
  by (simp add: sum_list_sum_nth atLeast0LessThan)

lemma total_weight_sum:
  "wf_desc desc \<Longrightarrow> total_weight desc = sum (get_node_weight desc) {..<get_total_nodes desc}"
  by (simp add: wf_desc_def sum_list_nth get_node_weight_def get_total_nodes_def)

interpretation quorum: quorum_system "get_node_weight desc" "{..<get_total_nodes desc}"
  "get_threshold_66 desc" "wf_desc desc \<and> 0 < total_weight desc"
proof
  show "finite {..<get_total_nodes desc}" by simp
  assume "wf_desc desc \<and> 0 < total_weight desc"
  then show "2 * sum (get_node_weight desc) {..<get_total_nodes desc} < 3 * get_threshold_66 desc"
    using threshold_66_strict [of "total_weight desc"] total_weight_sum [of desc]
    by (auto simp: get_threshold_66_def)
qed

section \<open>Weights of votes\<close>

definition voters :: "(validator_votes \<Rightarrow> bool) \<Rightarrow> validator_votes list \<Rightarrow> validator_index set" where
  "voters Q vs = {i. i < length vs \<and> Q (vs ! i)}"

definition vote_weight ::
  "session_description \<Rightarrow> (validator_votes \<Rightarrow> bool) \<Rightarrow> validator_votes list \<Rightarrow> validator_weight" where
  "vote_weight desc Q vs = sum (get_node_weight desc) (voters Q vs)"

definition notarized_for :: "uint256 \<Rightarrow> validator_votes \<Rightarrow> bool" where
  "notarized_for h v = (case notarize v of Some n \<Rightarrow> nv_block_hash n = h | None \<Rightarrow> False)"

definition finalized_for :: "uint256 \<Rightarrow> validator_votes \<Rightarrow> bool" where
  "finalized_for h v = (case finalize v of Some f \<Rightarrow> fv_block_hash f = h | None \<Rightarrow> False)"

lemma finite_voters [simp]: "finite (voters Q vs)"
  by (simp add: voters_def)

lemma vote_weight_new [simp]: "\<not> Q v \<Longrightarrow> vote_weight desc Q (replicate n v) = 0"
  unfolding vote_weight_def voters_def by (rule sum.neutral) auto

lemma vote_weight_update_add:
  assumes "i < length vs" "\<not> Q (vs ! i)" "Q v"
  shows "vote_weight desc Q (vs[i := v]) = vote_weight desc Q vs + get_node_weight desc i"
proof -
  have "voters Q (vs[i := v]) = insert i (voters Q vs)"
    using assms by (auto simp: voters_def nth_list_update)
  moreover have "i \<notin> voters Q vs" using assms by (simp add: voters_def)
  ultimately show ?thesis by (simp add: vote_weight_def)
qed

lemma vote_weight_update_same:
  assumes "i < length vs" "Q (vs ! i) = Q v"
  shows "vote_weight desc Q (vs[i := v]) = vote_weight desc Q vs"
proof -
  have "voters Q (vs[i := v]) = voters Q vs"
    using assms by (auto simp: voters_def nth_list_update)
  then show ?thesis by (simp add: vote_weight_def)
qed

section \<open>The accounting of a slot\<close>

definition wf_validator_votes :: "slot_index \<Rightarrow> validator_votes \<Rightarrow> bool" where
  "wf_validator_votes slot v \<longleftrightarrow>
     check_validator_invariants v \<and>
     (\<forall>n. notarize v = Some n \<longrightarrow> nv_slot n = slot) \<and>
     (\<forall>f. finalize v = Some f \<longrightarrow> fv_slot f = slot) \<and>
     (\<forall>s. skip v = Some s \<longrightarrow> sv_slot s = slot) \<and>
     (notarize_signature v = None \<longleftrightarrow> notarize v = None) \<and>
     (finalize_signature v = None \<longleftrightarrow> finalize v = None) \<and>
     (skip_signature v = None \<longleftrightarrow> skip v = None)"

definition exact_weights :: "session_description \<Rightarrow> slot_votes \<Rightarrow> bool" where
  "exact_weights desc sv \<longleftrightarrow>
     hm_invar (notarize_weight_by_block sv) \<and> hm_invar (finalize_weight_by_block sv) \<and>
     (\<forall>h. hm_weight (notarize_weight_by_block sv) h = vote_weight desc (notarized_for h) (votes sv)) \<and>
     (\<forall>h. hm_weight (finalize_weight_by_block sv) h = vote_weight desc (finalized_for h) (votes sv)) \<and>
     skip_weight sv = vote_weight desc (\<lambda>v. skip v \<noteq> None) (votes sv) \<and>
     notarize_or_skip_weight sv =
       vote_weight desc (\<lambda>v. notarize v \<noteq> None \<or> skip v \<noteq> None) (votes sv)"

definition wf_certificates ::
  "session_description \<Rightarrow> authority \<Rightarrow> bool \<Rightarrow> slot_index \<Rightarrow> slot_votes \<Rightarrow> bool" where
  "wf_certificates desc auth strict slot sv \<longleftrightarrow>
     (notarize_certificate sv \<noteq> None \<longrightarrow> block_notarized_published sv) \<and>
     (finalize_certificate sv \<noteq> None \<longrightarrow> block_finalized_published sv) \<and>
     (skip_certificate sv \<noteq> None \<longrightarrow> slot_skipped_published sv) \<and>
     (strict \<longrightarrow>
       (\<forall>c. notarize_certificate sv = Some c \<longrightarrow> (\<exists>h. valid_notar_cert desc auth slot h c)) \<and>
       (\<forall>c. finalize_certificate sv = Some c \<longrightarrow> (\<exists>h. valid_final_cert desc auth slot h c)) \<and>
       (\<forall>c. skip_certificate sv = Some c \<longrightarrow> valid_skip_cert desc auth slot c))"

definition signed_votes :: "authority \<Rightarrow> bool \<Rightarrow> slot_votes \<Rightarrow> bool" where
  "signed_votes auth strict sv \<longleftrightarrow>
     (strict \<longrightarrow>
       (\<forall>i < length (votes sv).
          (\<forall>n sig. notarize (votes sv ! i) = Some n \<longrightarrow>
             notarize_signature (votes sv ! i) = Some sig \<longrightarrow> auth i (Notarize n) sig) \<and>
          (\<forall>f sig. finalize (votes sv ! i) = Some f \<longrightarrow>
             finalize_signature (votes sv ! i) = Some sig \<longrightarrow> auth i (Finalize f) sig) \<and>
          (\<forall>s sig. skip (votes sv ! i) = Some s \<longrightarrow>
             skip_signature (votes sv ! i) = Some sig \<longrightarrow> auth i (Skip s) sig)))"

definition wf_slot_votes ::
  "session_description \<Rightarrow> authority \<Rightarrow> bool \<Rightarrow> slot_index \<Rightarrow> slot_votes \<Rightarrow> bool" where
  "wf_slot_votes desc auth strict slot sv \<longleftrightarrow>
     length (votes sv) = get_total_nodes desc \<and>
     (\<forall>v \<in> set (votes sv). wf_validator_votes slot v) \<and>
     exact_weights desc sv \<and> signed_votes auth strict sv \<and> wf_certificates desc auth strict slot sv"

lemma wf_slot_votes_new: "wf_slot_votes desc auth strict slot (slot_votes_new (get_total_nodes desc))"
  by (auto simp: wf_slot_votes_def slot_votes_new_def wf_validator_votes_def
      validator_votes_default_def check_validator_invariants_def exact_weights_def
      wf_certificates_def signed_votes_def hm_invar_def notarized_for_def finalized_for_def)

section \<open>Recording one vote\<close>

lemma vv_at: "wf_slot_votes desc auth strict slot sv \<Longrightarrow> i < length (votes sv) \<Longrightarrow>
    wf_validator_votes slot (votes sv ! i)"
  by (simp add: wf_slot_votes_def)

lemma in_updateD: "x \<in> set (vs[i := v]) \<Longrightarrow> x = v \<or> x \<in> set vs"
  using set_update_subset_insert [of vs i v] by auto

lemma signature_present:
  assumes "wf_slot_votes desc auth strict slot sv" and "i < length (votes sv)"
  shows "notarize (votes sv ! i) = Some n \<Longrightarrow> \<exists>y. notarize_signature (votes sv ! i) = Some y"
    and "finalize (votes sv ! i) = Some f \<Longrightarrow> \<exists>y. finalize_signature (votes sv ! i) = Some y"
    and "skip (votes sv ! i) = Some s \<Longrightarrow> \<exists>y. skip_signature (votes sv ! i) = Some y"
  using vv_at [OF assms]
  by (metis option.exhaust option.distinct(1) wf_validator_votes_def)+

lemma wf_add_notarize:
  assumes "wf_slot_votes desc auth strict slot sv" and "i < length (votes sv)"
    and "notarize (votes sv ! i) = None" and "nv_slot v = slot"
    and "\<forall>f. finalize (votes sv ! i) = Some f \<longrightarrow> fv_block_hash f = nv_block_hash v"
    and "strict \<longrightarrow> auth i (Notarize v) sig"
  shows "wf_slot_votes desc auth strict slot
    (sv\<lparr>votes := (votes sv)[i := (votes sv ! i)\<lparr>notarize := Some v, notarize_signature := Some sig,
                                             notarize_raw := raw\<rparr>],
        notarize_weight_by_block :=
          hm_add (nv_block_hash v) (get_node_weight desc i) (notarize_weight_by_block sv),
        notarize_or_skip_weight :=
          (if skip (votes sv ! i) \<noteq> None then notarize_or_skip_weight sv
           else notarize_or_skip_weight sv + get_node_weight desc i)\<rparr>)"
    (is "wf_slot_votes desc auth strict slot ?sv'")
proof -
  let ?vv = "votes sv ! i"
  let ?vv' = "?vv\<lparr>notarize := Some v, notarize_signature := Some sig, notarize_raw := raw\<rparr>"
  have vv: "wf_validator_votes slot ?vv" using assms by (auto intro: vv_at)
  have "wf_validator_votes slot ?vv'"
    using vv assms(3-5)
    by (auto simp: wf_validator_votes_def check_validator_invariants_def split: option.splits)
  then have "\<forall>v \<in> set (votes ?sv'). wf_validator_votes slot v"
    using assms(1) by (auto simp: wf_slot_votes_def dest!: in_updateD)
  moreover have "exact_weights desc ?sv'"
    using assms(1-3)
    by (auto simp: exact_weights_def wf_slot_votes_def hm_weight_add vote_weight_update_add
        vote_weight_update_same notarized_for_def finalized_for_def)
  moreover have "signed_votes auth strict ?sv'"
    using assms by (auto simp: wf_slot_votes_def signed_votes_def nth_list_update)
  ultimately show ?thesis
    using assms(1) by (simp add: wf_slot_votes_def wf_certificates_def)
qed

lemma wf_add_skip:
  assumes "wf_slot_votes desc auth strict slot sv" and "i < length (votes sv)"
    and "skip (votes sv ! i) = None" and "finalize (votes sv ! i) = None" and "sv_slot v = slot"
    and "strict \<longrightarrow> auth i (Skip v) sig"
  shows "wf_slot_votes desc auth strict slot
    (sv\<lparr>votes := (votes sv)[i := (votes sv ! i)\<lparr>skip := Some v, skip_signature := Some sig,
                                             skip_raw := raw\<rparr>],
        notarize_or_skip_weight :=
          (if notarize (votes sv ! i) \<noteq> None then notarize_or_skip_weight sv
           else notarize_or_skip_weight sv + get_node_weight desc i),
        skip_weight := skip_weight sv + get_node_weight desc i\<rparr>)"
    (is "wf_slot_votes desc auth strict slot ?sv'")
proof -
  let ?vv = "votes sv ! i"
  let ?vv' = "?vv\<lparr>skip := Some v, skip_signature := Some sig, skip_raw := raw\<rparr>"
  have vv: "wf_validator_votes slot ?vv" using assms by (auto intro: vv_at)
  have "wf_validator_votes slot ?vv'"
    using vv assms(3-5)
    by (auto simp: wf_validator_votes_def check_validator_invariants_def split: option.splits)
  then have "\<forall>v \<in> set (votes ?sv'). wf_validator_votes slot v"
    using assms(1) by (auto simp: wf_slot_votes_def dest!: in_updateD)
  moreover have "exact_weights desc ?sv'"
    using assms(1-3)
    by (auto simp: exact_weights_def wf_slot_votes_def vote_weight_update_add
        vote_weight_update_same notarized_for_def finalized_for_def)
  moreover have "signed_votes auth strict ?sv'"
    using assms by (auto simp: wf_slot_votes_def signed_votes_def nth_list_update)
  ultimately show ?thesis
    using assms(1) by (simp add: wf_slot_votes_def wf_certificates_def)
qed

lemma wf_add_finalize:
  assumes "wf_slot_votes desc auth strict slot sv" and "i < length (votes sv)"
    and "finalize (votes sv ! i) = None" and "skip (votes sv ! i) = None" and "fv_slot v = slot"
    and "\<forall>n. notarize (votes sv ! i) = Some n \<longrightarrow> nv_block_hash n = fv_block_hash v"
    and "strict \<longrightarrow> auth i (Finalize v) sig"
  shows "wf_slot_votes desc auth strict slot
    (sv\<lparr>votes := (votes sv)[i := (votes sv ! i)\<lparr>finalize := Some v, finalize_signature := Some sig,
                                             finalize_raw := raw\<rparr>],
        finalize_weight_by_block :=
          hm_add (fv_block_hash v) (get_node_weight desc i) (finalize_weight_by_block sv)\<rparr>)"
    (is "wf_slot_votes desc auth strict slot ?sv'")
proof -
  let ?vv = "votes sv ! i"
  let ?vv' = "?vv\<lparr>finalize := Some v, finalize_signature := Some sig, finalize_raw := raw\<rparr>"
  have vv: "wf_validator_votes slot ?vv" using assms by (auto intro: vv_at)
  have "wf_validator_votes slot ?vv'"
    using vv assms(3-6)
    by (auto simp: wf_validator_votes_def check_validator_invariants_def split: option.splits)
  then have "\<forall>v \<in> set (votes ?sv'). wf_validator_votes slot v"
    using assms(1) by (auto simp: wf_slot_votes_def dest!: in_updateD)
  moreover have "exact_weights desc ?sv'"
    using assms(1-3)
    by (auto simp: exact_weights_def wf_slot_votes_def hm_weight_add vote_weight_update_add
        vote_weight_update_same notarized_for_def finalized_for_def)
  moreover have "signed_votes auth strict ?sv'"
    using assms by (auto simp: wf_slot_votes_def signed_votes_def nth_list_update)
  ultimately show ?thesis
    using assms(1) by (simp add: wf_slot_votes_def wf_certificates_def)
qed

lemma wf_record_notarize:
  "wf_slot_votes desc auth strict slot sv \<Longrightarrow> nv_slot v = slot \<Longrightarrow>
   strict \<longrightarrow> auth i (Notarize v) sig \<Longrightarrow> record_notarize_vote desc i v sig raw sv = (r, sv') \<Longrightarrow> wf_slot_votes desc auth strict slot sv'"
  using wf_add_notarize [of desc auth strict slot sv i v sig "Some raw"]
  by (auto simp: record_notarize_vote_def get_validator_votes_def Let_def
      split: if_splits option.splits)

lemma wf_record_skip:
  "wf_slot_votes desc auth strict slot sv \<Longrightarrow> sv_slot v = slot \<Longrightarrow>
   strict \<longrightarrow> auth i (Skip v) sig \<Longrightarrow> record_skip_vote desc i v sig raw sv = (r, sv') \<Longrightarrow> wf_slot_votes desc auth strict slot sv'"
  using wf_add_skip [of desc auth strict slot sv i v sig "Some raw"]
  by (auto simp: record_skip_vote_def get_validator_votes_def Let_def
      split: if_splits option.splits)

lemma wf_record_finalize:
  "wf_slot_votes desc auth strict slot sv \<Longrightarrow> fv_slot v = slot \<Longrightarrow>
   strict \<longrightarrow> auth i (Finalize v) sig \<Longrightarrow> record_finalize_vote desc i v sig raw sv = (r, sv') \<Longrightarrow> wf_slot_votes desc auth strict slot sv'"
  using wf_add_finalize [of desc auth strict slot sv i v sig "Some raw"]
  by (auto simp: record_finalize_vote_def get_validator_votes_def Let_def
      split: if_splits option.splits)

section \<open>Absorbing certificates\<close>

lemma wf_absorb_notarize:
  "wf_slot_votes desc auth strict slot sv \<Longrightarrow>
   strict \<longrightarrow> auth (vs_validator_idx x) (Notarize \<lparr>nv_slot = slot, nv_block_hash = h\<rparr>) (vs_signature x) \<Longrightarrow>
   wf_slot_votes desc auth strict slot (absorb_notarize_signature desc slot h x sv)"
  using wf_add_notarize [of desc auth strict slot sv "vs_validator_idx x"
      "\<lparr>nv_slot = slot, nv_block_hash = h\<rparr>" "vs_signature x"
      "notarize_raw (votes sv ! vs_validator_idx x)"]
  by (auto simp: absorb_notarize_signature_def Let_def split: option.splits)

lemma wf_absorb_finalize:
  "wf_slot_votes desc auth strict slot sv \<Longrightarrow>
   strict \<longrightarrow> auth (vs_validator_idx x) (Finalize \<lparr>fv_slot = slot, fv_block_hash = h\<rparr>) (vs_signature x) \<Longrightarrow>
   wf_slot_votes desc auth strict slot (absorb_finalize_signature desc slot h x sv)"
  using wf_add_finalize [of desc auth strict slot sv "vs_validator_idx x"
      "\<lparr>fv_slot = slot, fv_block_hash = h\<rparr>" "vs_signature x"
      "finalize_raw (votes sv ! vs_validator_idx x)"]
  by (auto simp: absorb_finalize_signature_def Let_def split: option.splits)

lemma wf_absorb_skip:
  "wf_slot_votes desc auth strict slot sv \<Longrightarrow>
   strict \<longrightarrow> auth (vs_validator_idx x) (Skip \<lparr>sv_slot = slot\<rparr>) (vs_signature x) \<Longrightarrow>
   wf_slot_votes desc auth strict slot (absorb_skip_signature desc slot x sv)"
  using wf_add_skip [of desc auth strict slot sv "vs_validator_idx x"
      "\<lparr>sv_slot = slot\<rparr>" "vs_signature x" "skip_raw (votes sv ! vs_validator_idx x)"]
  by (auto simp: absorb_skip_signature_def Let_def split: option.splits)

lemma fold_preserves:
  "Q a \<Longrightarrow> (\<And>x a. x \<in> set xs \<Longrightarrow> Q a \<Longrightarrow> Q (f x a)) \<Longrightarrow> Q (fold f xs a)"
  by (induction xs arbitrary: a) auto

lemma wf_absorb_all:
  assumes "wf_slot_votes desc auth strict slot sv"
  shows "(strict \<longrightarrow> valid_notar_cert desc auth slot h c) \<Longrightarrow>
      wf_slot_votes desc auth strict slot
        (absorb_notarize_signatures desc slot h (cert_signatures c) sv)"
    and "(strict \<longrightarrow> valid_final_cert desc auth slot h c') \<Longrightarrow>
      wf_slot_votes desc auth strict slot
        (absorb_finalize_signatures desc slot h (cert_signatures c') sv)"
    and "(strict \<longrightarrow> valid_skip_cert desc auth slot c'') \<Longrightarrow>
      wf_slot_votes desc auth strict slot
        (absorb_skip_signatures desc slot (cert_signatures c'') sv)"
  unfolding absorb_notarize_signatures_def absorb_finalize_signatures_def absorb_skip_signatures_def
  by (rule fold_preserves [of "wf_slot_votes desc auth strict slot", OF assms],
      simp add: valid_cert_def wf_absorb_notarize wf_absorb_finalize wf_absorb_skip)+

section \<open>Certificates built from votes are valid\<close>

lemma collect_signatures_map:
  assumes "\<And>i v. f (i, v) = (if Q v then Some (g i v) else None)"
  shows "List.map_filter f (enumerate 0 vs) =
    map (\<lambda>i. g i (vs ! i)) (filter (\<lambda>i. Q (vs ! i)) [0..<length vs])"
proof -
  have "enumerate 0 vs = map (\<lambda>i. (i, vs ! i)) [0..<length vs]"
    by (rule nth_equalityI) (simp_all add: nth_enumerate_eq)
  then show ?thesis
    by (simp add: List.map_filter_def filter_map comp_def assms)
qed

lemma signed_cert_valid:
  assumes "cert_signatures c = map (\<lambda>i. \<lparr>vs_validator_idx = i, vs_signature = g i\<rparr>)
      (filter (\<lambda>i. Q (vs ! i)) [0..<length vs])"
    and "length vs = get_total_nodes desc" and "cert_vote c = v"
    and "get_threshold_66 desc \<le> vote_weight desc Q vs"
    and "\<And>i. i < length vs \<Longrightarrow> Q (vs ! i) \<Longrightarrow> auth i vt (g i)"
  shows "valid_cert desc auth vt v c"
proof -
  let ?xs = "filter (\<lambda>i. Q (vs ! i)) [0..<length vs]"
  have idx: "map vs_validator_idx (cert_signatures c) = ?xs"
    using assms(1) by (simp add: comp_def)
  have set: "set ?xs = voters Q vs" by (auto simp: voters_def)
  have "cert_signers c = set (map vs_validator_idx (cert_signatures c))"
    by (simp add: cert_signers_def)
  then have "cert_signers c = voters Q vs" by (simp only: idx set)
  moreover have "cert_total_weight c desc = vote_weight desc Q vs"
  proof -
    have "cert_total_weight c desc =
        sum_list (map (get_node_weight desc) (map vs_validator_idx (cert_signatures c)))"
      by (simp add: cert_total_weight_def comp_def)
    also have "\<dots> = sum (get_node_weight desc) (set ?xs)"
      unfolding idx by (rule sum_list_distinct_conv_sum_set) simp
    finally show ?thesis by (simp only: set vote_weight_def)
  qed
  moreover have "distinct (map vs_validator_idx (cert_signatures c))" by (simp only: idx) simp
  moreover have "voters Q vs \<subseteq> {..<get_total_nodes desc}"
    using assms(2) by (auto simp: voters_def)
  moreover have "\<forall>x \<in> set (cert_signatures c). auth (vs_validator_idx x) vt (vs_signature x)"
    using assms(5) by (auto simp: assms(1))
  ultimately show ?thesis
    using assms(3,4) by (simp add: valid_cert_def has_sufficient_weight_def)
qed

lemma create_notarize_cert_valid:
  assumes "wf_slot_votes desc auth True slot sv"
    and "(h, w) \<in> set (notarize_weight_by_block sv)" and "get_threshold_66 desc \<le> w"
  shows "valid_notar_cert desc auth slot h (create_notarize_cert sv slot h)"
proof (rule signed_cert_valid [where Q = "\<lambda>v. notarized_for h v \<and> notarize_signature v \<noteq> None"
      and vs = "votes sv" and g = "\<lambda>i. the (notarize_signature (votes sv ! i))"])
  show "cert_signatures (create_notarize_cert sv slot h) =
      map (\<lambda>i. \<lparr>vs_validator_idx = i, vs_signature = the (notarize_signature (votes sv ! i))\<rparr>)
        (filter (\<lambda>i. notarized_for h (votes sv ! i) \<and> notarize_signature (votes sv ! i) \<noteq> None)
          [0..<length (votes sv)])"
    unfolding create_notarize_cert_def certificate_new_def collect_notarize_signatures_def
      enumerate_votes_def certificate.simps
    by (rule collect_signatures_map
        [where g = "\<lambda>i v. \<lparr>vs_validator_idx = i, vs_signature = the (notarize_signature v)\<rparr>"])
      (auto simp: notarized_for_def split: option.split)
  have "voters (\<lambda>v. notarized_for h v \<and> notarize_signature v \<noteq> None) (votes sv) =
      voters (notarized_for h) (votes sv)"
    by (auto simp: voters_def notarized_for_def split: option.splits
        dest: signature_present(1) [OF assms(1)])
  moreover have "w = vote_weight desc (notarized_for h) (votes sv)"
    using assms hm_weight_mem [of "notarize_weight_by_block sv" h w]
    by (auto simp: wf_slot_votes_def exact_weights_def)
  ultimately show "get_threshold_66 desc \<le>
      vote_weight desc (\<lambda>v. notarized_for h v \<and> notarize_signature v \<noteq> None) (votes sv)"
    using assms(3) by (simp add: vote_weight_def)
  show "auth i (Notarize \<lparr>nv_slot = slot, nv_block_hash = h\<rparr>) (the (notarize_signature (votes sv ! i)))"
    if "i < length (votes sv)"
      and "notarized_for h (votes sv ! i) \<and> notarize_signature (votes sv ! i) \<noteq> None" for i
    using that assms(1) vv_at [OF assms(1) that(1)]
    by (auto simp: wf_slot_votes_def signed_votes_def wf_validator_votes_def notarized_for_def
        split: option.splits)
qed (use assms(1) in \<open>simp_all add: wf_slot_votes_def create_notarize_cert_def certificate_new_def\<close>)

lemma create_finalize_cert_valid:
  assumes "wf_slot_votes desc auth True slot sv"
    and "(h, w) \<in> set (finalize_weight_by_block sv)" and "get_threshold_66 desc \<le> w"
  shows "valid_final_cert desc auth slot h (create_finalize_cert sv slot h)"
proof (rule signed_cert_valid [where Q = "\<lambda>v. finalized_for h v \<and> finalize_signature v \<noteq> None"
      and vs = "votes sv" and g = "\<lambda>i. the (finalize_signature (votes sv ! i))"])
  show "cert_signatures (create_finalize_cert sv slot h) =
      map (\<lambda>i. \<lparr>vs_validator_idx = i, vs_signature = the (finalize_signature (votes sv ! i))\<rparr>)
        (filter (\<lambda>i. finalized_for h (votes sv ! i) \<and> finalize_signature (votes sv ! i) \<noteq> None)
          [0..<length (votes sv)])"
    unfolding create_finalize_cert_def certificate_new_def collect_finalize_signatures_def
      enumerate_votes_def certificate.simps
    by (rule collect_signatures_map
        [where g = "\<lambda>i v. \<lparr>vs_validator_idx = i, vs_signature = the (finalize_signature v)\<rparr>"])
      (auto simp: finalized_for_def split: option.split)
  have "voters (\<lambda>v. finalized_for h v \<and> finalize_signature v \<noteq> None) (votes sv) =
      voters (finalized_for h) (votes sv)"
    by (auto simp: voters_def finalized_for_def split: option.splits
        dest: signature_present(2) [OF assms(1)])
  moreover have "w = vote_weight desc (finalized_for h) (votes sv)"
    using assms hm_weight_mem [of "finalize_weight_by_block sv" h w]
    by (auto simp: wf_slot_votes_def exact_weights_def)
  ultimately show "get_threshold_66 desc \<le>
      vote_weight desc (\<lambda>v. finalized_for h v \<and> finalize_signature v \<noteq> None) (votes sv)"
    using assms(3) by (simp add: vote_weight_def)
  show "auth i (Finalize \<lparr>fv_slot = slot, fv_block_hash = h\<rparr>) (the (finalize_signature (votes sv ! i)))"
    if "i < length (votes sv)"
      and "finalized_for h (votes sv ! i) \<and> finalize_signature (votes sv ! i) \<noteq> None" for i
    using that assms(1) vv_at [OF assms(1) that(1)]
    by (auto simp: wf_slot_votes_def signed_votes_def wf_validator_votes_def finalized_for_def
        split: option.splits)
qed (use assms(1) in \<open>simp_all add: wf_slot_votes_def create_finalize_cert_def certificate_new_def\<close>)

lemma create_skip_cert_valid:
  assumes "wf_slot_votes desc auth True slot sv" and "get_threshold_66 desc \<le> skip_weight sv"
  shows "valid_skip_cert desc auth slot (create_skip_cert sv slot)"
proof (rule signed_cert_valid [where Q = "\<lambda>v. skip v \<noteq> None \<and> skip_signature v \<noteq> None"
      and vs = "votes sv" and g = "\<lambda>i. the (skip_signature (votes sv ! i))"])
  show "cert_signatures (create_skip_cert sv slot) =
      map (\<lambda>i. \<lparr>vs_validator_idx = i, vs_signature = the (skip_signature (votes sv ! i))\<rparr>)
        (filter (\<lambda>i. skip (votes sv ! i) \<noteq> None \<and> skip_signature (votes sv ! i) \<noteq> None)
          [0..<length (votes sv)])"
    unfolding create_skip_cert_def certificate_new_def collect_skip_signatures_def
      enumerate_votes_def certificate.simps
    by (rule collect_signatures_map
        [where g = "\<lambda>i v. \<lparr>vs_validator_idx = i, vs_signature = the (skip_signature v)\<rparr>"])
      (auto split: option.split)
  have "voters (\<lambda>v. skip v \<noteq> None \<and> skip_signature v \<noteq> None) (votes sv) =
      voters (\<lambda>v. skip v \<noteq> None) (votes sv)"
    by (auto simp: voters_def dest: signature_present(3) [OF assms(1)])
  then show "get_threshold_66 desc \<le>
      vote_weight desc (\<lambda>v. skip v \<noteq> None \<and> skip_signature v \<noteq> None) (votes sv)"
    using assms by (simp add: vote_weight_def wf_slot_votes_def exact_weights_def)
  show "auth i (Skip \<lparr>sv_slot = slot\<rparr>) (the (skip_signature (votes sv ! i)))"
    if "i < length (votes sv)"
      and "skip (votes sv ! i) \<noteq> None \<and> skip_signature (votes sv ! i) \<noteq> None" for i
    using that assms(1) vv_at [OF assms(1) that(1)]
    by (auto simp: wf_slot_votes_def signed_votes_def wf_validator_votes_def)
qed (use assms(1) in \<open>simp_all add: wf_slot_votes_def create_skip_cert_def certificate_new_def\<close>)

section \<open>Every transition keeps the accounting well-formed\<close>

lemma wf_slot_votes_mark:
  assumes "wf_slot_votes desc auth strict slot sv"
  shows "wf_slot_votes desc auth strict slot (sv\<lparr>block_notarized_published := True\<rparr>)"
    and "wf_slot_votes desc auth strict slot (sv\<lparr>block_finalized_published := True\<rparr>)"
    and "wf_slot_votes desc auth strict slot (sv\<lparr>slot_skipped_published := True\<rparr>)"
  using assms by (auto simp: wf_slot_votes_def wf_certificates_def exact_weights_def signed_votes_def)

text \<open>Storing a certificate and marking the outcome published commute with absorbing
  the certificate's signatures.\<close>

lemma absorb_store_commute:
  "(absorb_notarize_signatures desc slot h sigs (sv\<lparr>notarize_certificate := c\<rparr>))
     \<lparr>block_notarized_published := b\<rparr> =
   (absorb_notarize_signatures desc slot h sigs sv)
     \<lparr>notarize_certificate := c, block_notarized_published := b\<rparr>"
  "(absorb_finalize_signatures desc slot h sigs (sv\<lparr>finalize_certificate := c'\<rparr>))
     \<lparr>block_finalized_published := b\<rparr> =
   (absorb_finalize_signatures desc slot h sigs sv)
     \<lparr>finalize_certificate := c', block_finalized_published := b\<rparr>"
  "(absorb_skip_signatures desc slot sigs (sv\<lparr>skip_certificate := c''\<rparr>))
     \<lparr>slot_skipped_published := b\<rparr> =
   (absorb_skip_signatures desc slot sigs sv)
     \<lparr>skip_certificate := c'', slot_skipped_published := b\<rparr>"
proof -
  have 1: "absorb_notarize_signature desc slot h x (sv\<lparr>notarize_certificate := c\<rparr>) =
      (absorb_notarize_signature desc slot h x sv)\<lparr>notarize_certificate := c\<rparr>" for x sv
    by (simp add: absorb_notarize_signature_def Let_def)
  have 2: "absorb_finalize_signature desc slot h x (sv\<lparr>finalize_certificate := c'\<rparr>) =
      (absorb_finalize_signature desc slot h x sv)\<lparr>finalize_certificate := c'\<rparr>" for x sv
    by (simp add: absorb_finalize_signature_def Let_def)
  have 3: "absorb_skip_signature desc slot x (sv\<lparr>skip_certificate := c''\<rparr>) =
      (absorb_skip_signature desc slot x sv)\<lparr>skip_certificate := c''\<rparr>" for x sv
    by (simp add: absorb_skip_signature_def Let_def)
  have "absorb_notarize_signatures desc slot h sigs (sv\<lparr>notarize_certificate := c\<rparr>) =
      (absorb_notarize_signatures desc slot h sigs sv)\<lparr>notarize_certificate := c\<rparr>"
    "absorb_finalize_signatures desc slot h sigs (sv\<lparr>finalize_certificate := c'\<rparr>) =
      (absorb_finalize_signatures desc slot h sigs sv)\<lparr>finalize_certificate := c'\<rparr>"
    "absorb_skip_signatures desc slot sigs (sv\<lparr>skip_certificate := c''\<rparr>) =
      (absorb_skip_signatures desc slot sigs sv)\<lparr>skip_certificate := c''\<rparr>"
    unfolding absorb_notarize_signatures_def absorb_finalize_signatures_def
      absorb_skip_signatures_def
    by (induction sigs arbitrary: sv) (simp_all add: 1 2 3)
  then show
    "(absorb_notarize_signatures desc slot h sigs (sv\<lparr>notarize_certificate := c\<rparr>))
       \<lparr>block_notarized_published := b\<rparr> =
     (absorb_notarize_signatures desc slot h sigs sv)
       \<lparr>notarize_certificate := c, block_notarized_published := b\<rparr>"
    "(absorb_finalize_signatures desc slot h sigs (sv\<lparr>finalize_certificate := c'\<rparr>))
       \<lparr>block_finalized_published := b\<rparr> =
     (absorb_finalize_signatures desc slot h sigs sv)
       \<lparr>finalize_certificate := c', block_finalized_published := b\<rparr>"
    "(absorb_skip_signatures desc slot sigs (sv\<lparr>skip_certificate := c''\<rparr>))
       \<lparr>slot_skipped_published := b\<rparr> =
     (absorb_skip_signatures desc slot sigs sv)
       \<lparr>skip_certificate := c'', slot_skipped_published := b\<rparr>"
    by simp_all
qed

lemma wf_store:
  assumes "wf_slot_votes desc auth strict slot sv"
  shows "(strict \<longrightarrow> (\<exists>h. valid_notar_cert desc auth slot h c)) \<Longrightarrow>
      wf_slot_votes desc auth strict slot
        (sv\<lparr>notarize_certificate := Some c, block_notarized_published := True\<rparr>)"
    and "(strict \<longrightarrow> (\<exists>h. valid_final_cert desc auth slot h c')) \<Longrightarrow>
      wf_slot_votes desc auth strict slot
        (sv\<lparr>finalize_certificate := Some c', block_finalized_published := True\<rparr>)"
    and "(strict \<longrightarrow> valid_skip_cert desc auth slot c'') \<Longrightarrow>
      wf_slot_votes desc auth strict slot
        (sv\<lparr>skip_certificate := Some c'', slot_skipped_published := True\<rparr>)"
  using assms by (auto simp: wf_slot_votes_def wf_certificates_def exact_weights_def signed_votes_def)

lemma store_result:
  "store_notarize_certificate h c (sv\<lparr>block_notarized_published := True\<rparr>) = (Inr b, sv') \<Longrightarrow>
   sv' = sv\<lparr>block_notarized_published := True\<rparr> \<or>
   sv' = sv\<lparr>notarize_certificate := Some c, block_notarized_published := True\<rparr>"
  "store_finalize_certificate h c' (sv\<lparr>block_finalized_published := True\<rparr>) = (Inr b, sv') \<Longrightarrow>
   sv' = sv\<lparr>block_finalized_published := True\<rparr> \<or>
   sv' = sv\<lparr>finalize_certificate := Some c', block_finalized_published := True\<rparr>"
  "store_skip_certificate c'' (sv\<lparr>slot_skipped_published := True\<rparr>) = (Inr b, sv') \<Longrightarrow>
   sv' = sv\<lparr>slot_skipped_published := True\<rparr> \<or>
   sv' = sv\<lparr>skip_certificate := Some c'', slot_skipped_published := True\<rparr>"
  by (auto simp: store_notarize_certificate_def store_finalize_certificate_def
      store_skip_certificate_def split: option.splits if_splits)

lemma wf_sv_step:
  "sv_step desc auth strict slot sv sv' \<Longrightarrow> wf_slot_votes desc auth strict slot sv \<Longrightarrow>
   wf_slot_votes desc auth strict slot sv'"
proof (induction rule: sv_step.induct)
  case (sv_notarize_reached h w sv b sv')
  then show ?case
    using store_result(1) [OF sv_notarize_reached(3)] create_notarize_cert_valid
    by (metis (full_types) wf_slot_votes_mark(1) wf_store(1))
next
  case (sv_finalize_reached h w sv b sv')
  then show ?case
    using store_result(2) [OF sv_finalize_reached(3)] create_finalize_cert_valid
    by (metis (full_types) wf_slot_votes_mark(2) wf_store(2))
next
  case (sv_skip_reached sv b sv')
  then show ?case
    using store_result(3) [OF sv_skip_reached(2)] create_skip_cert_valid
    by (metis (full_types) wf_slot_votes_mark(3) wf_store(3))
qed (auto simp: absorb_store_commute intro: wf_record_notarize wf_record_skip wf_record_finalize
      intro!: wf_store wf_absorb_all)

section \<open>The accounting of the machine\<close>

definition accounting ::
  "session_description \<Rightarrow> authority \<Rightarrow> bool \<Rightarrow> simplex_state \<Rightarrow> bool" where
  "accounting desc auth strict st \<longleftrightarrow>
     wf_windows desc st \<and> hm_invar (simplex_state.slot_votes st) \<and>
     num_validators st = get_total_nodes desc \<and>
     (\<forall>s sv. hm_get (simplex_state.slot_votes st) s = Some sv \<longrightarrow>
        wf_slot_votes desc auth strict s sv)"

lemma accounting_at:
  "accounting desc auth strict st \<Longrightarrow> wf_slot_votes desc auth strict s (slot_votes_at s st)"
  by (auto simp: accounting_def slot_votes_at_def wf_slot_votes_new split: option.split)

lemma accounting_put:
  "accounting desc auth strict st \<Longrightarrow> wf_slot_votes desc auth strict s sv \<Longrightarrow>
   accounting desc auth strict (put_slot_votes s sv st)"
  by (auto simp: accounting_def put_slot_votes_def hm.get_insert hm.invar_insert)

lemma accounting_cleanup:
  "accounting desc auth strict st \<Longrightarrow> accounting desc auth strict (cleanup_slots u st)"
  using wf_windows_cleanup [of desc st u]
  by (auto simp: accounting_def, auto simp: cleanup_slots_def Let_def hm.get_retain
      hm.invar_retain split: prod.splits if_splits)

interpretation acc: machine_stable desc "accounting desc auth strict" auth strict
proof (unfold_locales, goal_cases)
  case (21 st s sv)
  then show ?case by (blast intro: accounting_put wf_sv_step accounting_at)
next
  case (24 st u)
  then show ?case by (rule accounting_cleanup)
qed (auto simp: accounting_def state_defs)

text \<open>The asserted invariants never fail.\<close>

lemma accounting_check_invariants: "accounting desc auth strict st \<Longrightarrow> check_invariants st"
  by (auto simp: check_invariants_def accounting_def list_all_iff wf_slot_votes_def
      wf_validator_votes_def dest!: hm_get_mem)

lemma accounting_new: "simplex_state_new desc = Some st \<Longrightarrow> accounting desc auth strict st"
proof -
  assume new: "simplex_state_new desc = Some st"
  then have "wf_windows desc (initial_fields desc)"
    by (auto simp: simplex_state_new_def wf_windows_def initial_fields_def slots_per_window_def
        split: if_splits)
  moreover from this have "accounting desc auth strict (initial_fields desc)"
    by (simp add: accounting_def initial_fields_def hm_invar_def)
  ultimately show ?thesis
    using new
    by (auto simp: simplex_state_new_def Let_def accounting_def split: if_splits option.splits)
qed

section \<open>Bounds and uniqueness\<close>

lemma vote_weight_le_total:
  assumes "wf_desc desc" and "length vs = get_total_nodes desc"
  shows "vote_weight desc Q vs \<le> total_weight desc"
  unfolding vote_weight_def total_weight_sum [OF assms(1)]
  using assms(2) by (intro sum_mono2) (auto simp: voters_def)

lemma voters_disjoint:
  "h \<noteq> h' \<Longrightarrow> voters (notarized_for h) vs \<inter> voters (notarized_for h') vs = {}"
  "h \<noteq> h' \<Longrightarrow> voters (finalized_for h) vs \<inter> voters (finalized_for h') vs = {}"
  by (auto simp: voters_def notarized_for_def finalized_for_def split: option.splits)

lemma unique_quorum:
  assumes "wf_desc desc" "0 < total_weight desc" "length vs = get_total_nodes desc"
    and "get_threshold_66 desc \<le> vote_weight desc Q vs"
    and "get_threshold_66 desc \<le> vote_weight desc R vs"
  shows "voters Q vs \<inter> voters R vs \<noteq> {}"
  using assms by (intro quorum.quorums_meet) (auto simp: voters_def vote_weight_def)

end
