(* ===== verification/Simplex_Agreement.thy ===== *)
theory Simplex_Agreement
  imports Simplex_Accounting
begin

text \<open>
  What the machine announces is backed by signatures: every certificate that leaves it
  through the event queue is valid.  By quorum intersection two nodes that announce
  conflicting certificates expose validators of more than a third of the total weight
  who signed conflicting votes.
\<close>

section \<open>Announced certificates\<close>

definition valid_event :: "session_description \<Rightarrow> authority \<Rightarrow> simplex_event \<Rightarrow> bool" where
  "valid_event desc auth e =
    (case e of
       BroadcastVote _ \<Rightarrow> True
     | SlotSkipped _ \<Rightarrow> True
     | BlockFinalized x \<Rightarrow>
         valid_final_cert desc auth (bfe_slot x) (bfe_block_hash x) (bfe_certificate x)
     | FinalizationReached x \<Rightarrow>
         valid_final_cert desc auth (fre_slot x) (fre_block_hash x) (fre_certificate x)
     | NotarizationReached x \<Rightarrow>
         valid_notar_cert desc auth (nre_slot x) (nre_block_hash x) (nre_certificate x)
     | SkipCertificateReached x \<Rightarrow>
         valid_skip_cert desc auth (scre_slot x) (scre_certificate x))"

definition sound_state :: "session_description \<Rightarrow> authority \<Rightarrow> simplex_state \<Rightarrow> bool" where
  "sound_state desc auth st \<longleftrightarrow>
     accounting desc auth True st \<and> (\<forall>e \<in> set (events st). valid_event desc auth e)"

lemma backed_valid:
  assumes "accounting desc auth True st" and "event_backed desc auth True st e"
  shows "valid_event desc auth e"
  using assms(2) accounting_at [OF assms(1)]
  by (auto simp: event_backed_def valid_event_def final_backed_def notar_backed_def Let_def
      wf_slot_votes_def wf_certificates_def split: simplex_event.splits
      intro: create_finalize_cert_valid create_notarize_cert_valid [OF accounting_at [OF assms(1)]]
        create_finalize_cert_valid [OF accounting_at [OF assms(1)]])

lemma valid_event_broadcast [simp]: "valid_event desc auth (BroadcastVote v)"
  by (simp add: valid_event_def)

lemma events_timeouts [simp]:
  "events (set_timeouts desc st) = events st"
  "events (restore_default_timeouts desc st) = events st"
  by (simp_all add: state_defs)

interpretation sound: machine_stable desc "sound_state desc auth" auth True
proof (unfold_locales, goal_cases)
  case (1 st)
  then show ?case by (simp add: sound_state_def accounting_def)
next
  case (22 st e)
  then show ?case
    using acc.P_event [of desc auth True st e] backed_valid [of desc auth st e]
    by (auto simp: sound_state_def)
qed (simp_all add: sound_state_def acc.P_ensure acc.P_cast_notarize acc.P_cast_finalize
      acc.P_cast_skip acc.P_pending_block acc.P_pending_slots acc.P_candidate_ids
      acc.P_had_timeouts acc.P_timer acc.P_base acc.P_skipped acc.P_notar acc.P_cursor
      acc.P_skip_intervals acc.P_warned acc.P_available_bases acc.P_arm
      acc.P_backoff acc.P_restore acc.P_votes acc.P_finalized acc.P_cleanup)

section \<open>Runs\<close>

lemma valid_cert_at_time [simp]: "valid_cert (at_time t desc) auth v x c = valid_cert desc auth v x c"
  by (simp add: valid_cert_def has_sufficient_weight_def cert_total_weight_def)

lemma accounting_at_time [simp]: "accounting (at_time t desc) auth strict st = accounting desc auth strict st"
  by (simp add: accounting_def wf_slot_votes_def exact_weights_def wf_certificates_def
      vote_weight_def)

lemma sound_at_time [simp]:
  "valid_event (at_time t desc) auth e = valid_event desc auth e"
  "sound_state (at_time t desc) auth st = sound_state desc auth st"
  "valid_op (at_time t desc) auth op = valid_op desc auth op"
  by (auto simp: valid_event_def sound_state_def valid_op_def split: simplex_event.split fsm_op.split)

text \<open>Rule induction over a run: an invariant that the steps keep and an output property.\<close>

lemma fsm_run_invariant:
  assumes "fsm_run desc ops st = Some (outs, st')" and "I st"
    and "\<And>t op st out st'. (t, op) \<in> set ops \<Longrightarrow> I st \<Longrightarrow>
      fsm_step (at_time t desc) op st = Some (out, st') \<Longrightarrow> I st' \<and> (\<forall>e \<in> set out. J e)"
  shows "I st' \<and> (\<forall>e \<in> set outs. J e)"
  using assms
proof (induction ops arbitrary: st outs)
  case Nil
  then show ?case by simp
next
  case (Cons x ops)
  obtain t op where x: "x = (t, op)" by fastforce
  from Cons.prems(1) obtain out st1 outs' where
    1: "fsm_step (at_time t desc) op st = Some (out, st1)"
    and 2: "fsm_run desc ops st1 = Some (outs', st')" and outs: "outs = out @ outs'"
    by (auto simp: x elim!: bind_eq_SomeE)
  have s1: "I st1 \<and> (\<forall>e \<in> set out. J e)"
    using Cons.prems(3) [OF _ Cons.prems(2) 1] x by simp
  have "I st' \<and> (\<forall>e \<in> set outs'. J e)"
  proof (rule Cons.IH [OF 2 conjunct1 [OF s1]], goal_cases)
    case (1 t op st out st')
    then show ?case using Cons.prems(3) [of t op st out st'] by simp
  qed
  with s1 show ?case by (auto simp: outs)
qed

lemma sound_step:
  assumes "sound_state desc auth st" and "fsm_step desc op st = Some (out, st')"
    and "valid_op desc auth op"
  shows "sound_state desc auth st' \<and> (\<forall>e \<in> set out. valid_event desc auth e)"
proof (cases "op = PullEvent")
  case True
  with assms show ?thesis
    by (cases "events st") (auto simp: fsm_step_def pull_event_def sound_state_def accounting_def)
next
  case False
  have "out = []"
    using assms(2) False by (cases op) (auto simp: fsm_step_def)
  then show ?thesis using sound.P_fsm_step [OF assms(1,2) False] assms(3) by simp
qed

lemma sound_new:
  assumes "simplex_state_new desc = Some st"
  shows "sound_state desc auth st"
proof -
  have "events st = []"
    using assms
    by (auto simp: simplex_state_new_def initial_fields_def Let_def split: if_splits option.splits)
  then show ?thesis using accounting_new [OF assms] by (simp add: sound_state_def)
qed

lemma sound_run:
  assumes "simplex_state_new desc = Some st0" and "fsm_run desc ops st0 = Some (outs, st)"
    and "\<forall>(t, op) \<in> set ops. valid_op desc auth op"
  shows "sound_state desc auth st \<and> (\<forall>e \<in> set outs. valid_event desc auth e)"
proof (rule fsm_run_invariant [where I = "sound_state desc auth",
      OF assms(2) sound_new [OF assms(1)]], goal_cases)
  case (1 t op st out st')
  then show ?case
    using sound_step [of "at_time t desc" auth st op out st'] assms(3) by auto
qed

text \<open>With no demand on signatures the accounting holds in every reachable state.\<close>

lemma accounting_reachable:
  assumes "simplex_state_new desc = Some st0" and "fsm_run desc ops st0 = Some (outs, st)"
  shows "accounting desc auth False st"
proof -
  have "accounting desc auth False st \<and> (\<forall>e \<in> set outs. True)"
  proof (rule fsm_run_invariant [where I = "accounting desc auth False",
        OF assms(2) accounting_new [OF assms(1)]], goal_cases)
    case (1 t op st out st')
    show ?case
    proof (cases "op = PullEvent")
      case True
      with 1 show ?thesis
        by (cases "events st") (auto simp: fsm_step_def pull_event_def accounting_def)
    next
      case False
      with 1 acc.P_fsm_step [of "at_time t desc" auth False st op out st'] show ?thesis by simp
    qed
  qed
  then show ?thesis by simp
qed

section \<open>Agreement\<close>

definition certified_vote :: "simplex_event \<Rightarrow> vote option" where
  "certified_vote e =
    (case e of
       BroadcastVote _ \<Rightarrow> None
     | SlotSkipped _ \<Rightarrow> None
     | BlockFinalized x \<Rightarrow> Some (Finalize \<lparr>fv_slot = bfe_slot x, fv_block_hash = bfe_block_hash x\<rparr>)
     | FinalizationReached x \<Rightarrow>
         Some (Finalize \<lparr>fv_slot = fre_slot x, fv_block_hash = fre_block_hash x\<rparr>)
     | NotarizationReached x \<Rightarrow>
         Some (Notarize \<lparr>nv_slot = nre_slot x, nv_block_hash = nre_block_hash x\<rparr>)
     | SkipCertificateReached x \<Rightarrow> Some (Skip \<lparr>sv_slot = scre_slot x\<rparr>))"

text \<open>Votes for one slot that one validator must not cast together.\<close>

fun conflicting :: "vote \<Rightarrow> vote \<Rightarrow> bool" where
  "conflicting (Notarize a) (Notarize b) \<longleftrightarrow>
     nv_slot a = nv_slot b \<and> nv_block_hash a \<noteq> nv_block_hash b"
| "conflicting (Finalize a) (Finalize b) \<longleftrightarrow>
     fv_slot a = fv_slot b \<and> fv_block_hash a \<noteq> fv_block_hash b"
| "conflicting (Notarize a) (Finalize b) \<longleftrightarrow>
     nv_slot a = fv_slot b \<and> nv_block_hash a \<noteq> fv_block_hash b"
| "conflicting (Finalize a) (Notarize b) \<longleftrightarrow>
     fv_slot a = nv_slot b \<and> fv_block_hash a \<noteq> nv_block_hash b"
| "conflicting (Finalize a) (Skip b) \<longleftrightarrow> fv_slot a = sv_slot b"
| "conflicting (Skip a) (Finalize b) \<longleftrightarrow> sv_slot a = fv_slot b"
| "conflicting (Notarize a) (Skip b) \<longleftrightarrow> False"
| "conflicting (Skip a) (Notarize b) \<longleftrightarrow> False"
| "conflicting (Skip a) (Skip b) \<longleftrightarrow> False"

definition signers_of :: "session_description \<Rightarrow> authority \<Rightarrow> vote \<Rightarrow> validator_index set" where
  "signers_of desc auth v = {i. i < get_total_nodes desc \<and> (\<exists>sig. auth i v sig)}"

lemma valid_cert_signers:
  assumes "valid_cert desc auth v x c"
  shows "get_threshold_66 desc \<le> sum (get_node_weight desc) (signers_of desc auth v)"
proof -
  let ?idx = "map vs_validator_idx (cert_signatures c)"
  have "cert_total_weight c desc = sum_list (map (get_node_weight desc) ?idx)"
    by (simp add: cert_total_weight_def comp_def)
  also have "\<dots> = sum (get_node_weight desc) (set ?idx)"
    using assms by (intro sum_list_distinct_conv_sum_set) (simp add: valid_cert_def)
  finally have "cert_total_weight c desc = sum (get_node_weight desc) (cert_signers c)"
    by (simp add: cert_signers_def)
  moreover have "cert_signers c \<subseteq> signers_of desc auth v"
    using assms by (auto simp: valid_cert_def signers_of_def cert_signers_def)
  then have "sum (get_node_weight desc) (cert_signers c) \<le>
      sum (get_node_weight desc) (signers_of desc auth v)"
    by (intro sum_mono2) (auto simp: signers_of_def)
  ultimately show ?thesis
    using assms by (simp add: valid_cert_def has_sufficient_weight_def)
qed

lemma valid_event_signers:
  "valid_event desc auth e \<Longrightarrow> certified_vote e = Some v \<Longrightarrow>
   get_threshold_66 desc \<le> sum (get_node_weight desc) (signers_of desc auth v)"
  by (auto simp: valid_event_def certified_vote_def split: simplex_event.splits
      dest: valid_cert_signers)

lemma double_signers_heavy:
  assumes "wf_desc desc" and "0 < total_weight desc"
    and "valid_event desc auth e" and "certified_vote e = Some v"
    and "valid_event desc auth e'" and "certified_vote e' = Some v'"
  shows "total_weight desc <
    3 * sum (get_node_weight desc) (signers_of desc auth v \<inter> signers_of desc auth v')"
  unfolding total_weight_sum [OF assms(1)]
  using assms
  by (intro quorum.quorum_intersection valid_event_signers) (auto simp: signers_of_def)

lemma run_outputs_valid:
  assumes "\<forall>(t, op) \<in> set ops. valid_op desc auth op" and "e \<in> set (run_outputs desc ops)"
  shows "valid_event desc auth e"
proof -
  obtain st0 outs st where "simplex_state_new desc = Some st0"
      "fsm_run desc ops st0 = Some (outs, st)" "e \<in> set (outs @ events st)"
    using assms(2) by (rule run_outputsE)
  with sound_run [of desc st0 ops outs st auth] assms(1) show ?thesis
    by (auto simp: sound_state_def)
qed

text \<open>The validators that signed two conflicting votes.\<close>

definition equivocators :: "session_description \<Rightarrow> authority \<Rightarrow> validator_index set" where
  "equivocators desc auth =
     {i. i < get_total_nodes desc \<and>
         (\<exists>u u' sig sig'. conflicting u u' \<and> auth i u sig \<and> auth i u' sig')}"

lemma valid_event_sources:
  assumes "sources desc' = sources desc" and "total_weight desc' = total_weight desc"
  shows "valid_event desc' auth e = valid_event desc auth e"
  using assms
  by (auto simp: valid_event_def valid_cert_def has_sufficient_weight_def cert_total_weight_def
      get_threshold_66_def get_node_weight_def get_total_nodes_def split: simplex_event.split)

lemma conflicting_outputs_heavy:
  assumes "wf_desc desc" and "0 < total_weight desc"
    and "valid_event desc auth e" and "valid_event desc auth e'"
    and "certified_vote e = Some v" and "certified_vote e' = Some v'" and "conflicting v v'"
  shows "total_weight desc < 3 * sum (get_node_weight desc) (equivocators desc auth)"
proof -
  have "total_weight desc <
      3 * sum (get_node_weight desc) (signers_of desc auth v \<inter> signers_of desc auth v')"
    using double_signers_heavy assms by blast
  also have "\<dots> \<le> 3 * sum (get_node_weight desc) (equivocators desc auth)"
    using assms(7)
    by (intro mult_left_mono sum_mono2) (auto simp: signers_of_def equivocators_def)
  finally show ?thesis .
qed

end
