(* ===== verification/Simplex_Discipline.thy ===== *)
theory Simplex_Discipline
  imports Simplex_Agreement
begin

text \<open>
  Voting discipline: the votes a machine casts over a whole run, pulled from its queue or
  still in it, contain no two conflicting ones.  The invariant ties every vote cast so far
  to the marks of its slot, until the slot's window is dropped.
\<close>

section \<open>The ballots of a slot\<close>

fun cast_vote :: "simplex_event \<Rightarrow> vote option" where
  "cast_vote (BroadcastVote v) = Some v"
| "cast_vote _ = None"

definition cast_votes :: "simplex_event list \<Rightarrow> vote list" where
  "cast_votes es = List.map_filter cast_vote es"

lemma cast_votes_simps [simp]:
  "cast_votes [] = []"
  "cast_votes (e # es) = (case cast_vote e of Some v \<Rightarrow> v # cast_votes es | None \<Rightarrow> cast_votes es)"
  "cast_votes (es @ es') = cast_votes es @ cast_votes es'"
  by (simp_all add: cast_votes_def List.map_filter_def split: option.split)

definition recorded_vote :: "session_description \<Rightarrow> simplex_state \<Rightarrow> vote \<Rightarrow> bool" where
  "recorded_vote desc st v \<longleftrightarrow>
     get_window_idx desc (vote_slot v) < leader_window_offset st \<or>
     (let x = slot_view desc st (vote_slot v)
      in case v of
           Notarize n \<Rightarrow> voted_notar x = Some \<lparr>cpi_slot = nv_slot n, cpi_hash = nv_block_hash n\<rparr>
         | Finalize f \<Rightarrow>
             voted_final x \<and> voted_notar x = Some \<lparr>cpi_slot = fv_slot f, cpi_hash = fv_block_hash f\<rparr>
         | Skip s \<Rightarrow> voted_skip x)"

definition wf_ballot :: "slot_index \<Rightarrow> slot \<Rightarrow> bool" where
  "wf_ballot s x \<longleftrightarrow>
     is_completed x = voted_final x \<and> \<not> (voted_final x \<and> voted_skip x) \<and>
     (\<forall>p. voted_notar x = Some p \<longrightarrow> cpi_slot p = s)"

definition disciplined ::
  "session_description \<Rightarrow> vote list \<Rightarrow> simplex_state \<Rightarrow> bool" where
  "disciplined desc hist st \<longleftrightarrow>
     wf_windows desc st \<and> (\<forall>s. wf_ballot s (slot_view desc st s)) \<and>
     (\<forall>v \<in> set (hist @ cast_votes (events st)). recorded_vote desc st v) \<and>
     (\<forall>v \<in> set (hist @ cast_votes (events st)). \<forall>v' \<in> set (hist @ cast_votes (events st)).
        \<not> conflicting v v')"

definition same_ballot :: "slot \<Rightarrow> slot \<Rightarrow> bool" where
  "same_ballot x y \<longleftrightarrow>
     voted_notar x = voted_notar y \<and> voted_final x = voted_final y \<and>
     voted_skip x = voted_skip y \<and> is_completed x = is_completed y"

lemma disciplined_frame:
  assumes "disciplined desc hist st" and "wf_windows desc st'"
    and "\<And>s. same_ballot (slot_view desc st s) (slot_view desc st' s)"
    and "leader_window_offset st' = leader_window_offset st"
    and "cast_votes (events st') = cast_votes (events st)"
  shows "disciplined desc hist st'"
proof -
  have "recorded_vote desc st' v = recorded_vote desc st v" for v
    using assms(3) [of "vote_slot v"] assms(4)
    by (auto simp: recorded_vote_def same_ballot_def split: vote.split)
  moreover have "wf_ballot s (slot_view desc st' s)" for s
    using assms(1) assms(3) [of s] by (auto simp: disciplined_def wf_ballot_def same_ballot_def)
  ultimately show ?thesis
    using assms(1,2,5) by (simp add: disciplined_def)
qed

lemma conflicting_slot: "conflicting v v' \<Longrightarrow> vote_slot v = vote_slot v'"
  by (cases v; cases v') (auto simp: vote_slot_def)

lemma conflicting_sym: "conflicting v v' = conflicting v' v"
  by (cases v; cases v') auto

lemma conflicting_irrefl [simp]: "\<not> conflicting v v"
  by (cases v) auto

lemma window_not_dropped: "has_window st (get_window_idx desc s) \<Longrightarrow>
    \<not> get_window_idx desc s < leader_window_offset st"
  by (simp add: has_window_def)

text \<open>Casting one vote together with its mark: the other votes stay recorded, and the new
  one conflicts with none of them.\<close>

lemma disciplined_cast:
  assumes d: "disciplined desc hist st" and w: "has_window st (get_window_idx desc s)"
    and s: "vote_slot v = s"
    and ballot: "wf_ballot s (f (slot_view desc st s))"
    and new: "recorded_vote desc (put_slot desc s f (broadcast_vote v st)) v"
    and old: "\<And>v'. vote_slot v' = s \<Longrightarrow> recorded_vote desc st v' \<Longrightarrow>
      recorded_vote desc (put_slot desc s f (broadcast_vote v st)) v' \<and> \<not> conflicting v v'"
  shows "disciplined desc hist (put_slot desc s f (broadcast_vote v st))"
    (is "disciplined desc hist ?st")
proof -
  have wf: "wf_windows desc st" using d by (simp add: disciplined_def)
  have view: "slot_view desc ?st t =
      (if t = s then f (slot_view desc st s) else slot_view desc st t)" for t
    using wf w by (simp add: slot_view_put_slot)
  have rec: "recorded_vote desc ?st v'" if "recorded_vote desc st v'" for v'
    using old [of v'] that view [of "vote_slot v'"]
    by (cases "vote_slot v' = s") (auto simp: recorded_vote_def)
  have "\<not> conflicting v v'" if "recorded_vote desc st v'" for v'
    using old [of v'] that conflicting_slot [of v v'] s by auto
  with rec new d view ballot show ?thesis
    using conflicting_sym by (auto simp: disciplined_def)
qed

section \<open>The three ballots\<close>

lemma disciplined_notarize:
  assumes d: "disciplined desc hist st" and w: "has_window st (get_window_idx desc s)"
    and none: "voted_notar (slot_view desc st s) = None"
  shows "disciplined desc hist (put_slot desc s (mark_voted_notar s h)
    (broadcast_vote (Notarize \<lparr>nv_slot = s, nv_block_hash = h\<rparr>) st))"
proof (rule disciplined_cast [OF d w])
  have wf: "wf_windows desc st" and b: "wf_ballot s (slot_view desc st s)"
    using d by (simp_all add: disciplined_def)
  show "wf_ballot s (mark_voted_notar s h (slot_view desc st s))"
    using b by (simp add: wf_ballot_def)
  show "recorded_vote desc (put_slot desc s (mark_voted_notar s h)
      (broadcast_vote (Notarize \<lparr>nv_slot = s, nv_block_hash = h\<rparr>) st))
      (Notarize \<lparr>nv_slot = s, nv_block_hash = h\<rparr>)"
    using wf w by (simp add: recorded_vote_def vote_slot_def slot_view_put_slot)
  fix v' assume "vote_slot v' = s" and "recorded_vote desc st v'"
  then show "recorded_vote desc (put_slot desc s (mark_voted_notar s h)
      (broadcast_vote (Notarize \<lparr>nv_slot = s, nv_block_hash = h\<rparr>) st)) v' \<and>
      \<not> conflicting (Notarize \<lparr>nv_slot = s, nv_block_hash = h\<rparr>) v'"
    using wf w none window_not_dropped [OF w]
    by (cases v') (auto simp: recorded_vote_def slot_view_put_slot)
qed (simp add: vote_slot_def)

lemma disciplined_finalize:
  assumes d: "disciplined desc hist st" and w: "has_window st (get_window_idx desc s)"
    and vote: "should_vote_final h (slot_view desc st s)"
  shows "disciplined desc hist (put_slot desc s mark_voted_final
    (broadcast_vote (Finalize \<lparr>fv_slot = s, fv_block_hash = h\<rparr>) st))"
proof (rule disciplined_cast [OF d w])
  have wf: "wf_windows desc st" and b: "wf_ballot s (slot_view desc st s)"
    using d by (simp_all add: disciplined_def)
  from vote b have notar: "voted_notar (slot_view desc st s) = Some \<lparr>cpi_slot = s, cpi_hash = h\<rparr>"
      and skip: "\<not> voted_skip (slot_view desc st s)"
    by (auto simp: should_vote_final_def wf_ballot_def split: option.splits)
  show "wf_ballot s (mark_voted_final (slot_view desc st s))"
    using b skip by (simp add: wf_ballot_def)
  show "recorded_vote desc (put_slot desc s mark_voted_final
      (broadcast_vote (Finalize \<lparr>fv_slot = s, fv_block_hash = h\<rparr>) st))
      (Finalize \<lparr>fv_slot = s, fv_block_hash = h\<rparr>)"
    using wf w notar by (simp add: recorded_vote_def vote_slot_def slot_view_put_slot)
  fix v' assume "vote_slot v' = s" and "recorded_vote desc st v'"
  then show "recorded_vote desc (put_slot desc s mark_voted_final
      (broadcast_vote (Finalize \<lparr>fv_slot = s, fv_block_hash = h\<rparr>) st)) v' \<and>
      \<not> conflicting (Finalize \<lparr>fv_slot = s, fv_block_hash = h\<rparr>) v'"
    using wf w notar skip window_not_dropped [OF w]
    by (cases v') (auto simp: recorded_vote_def slot_view_put_slot)
qed (simp add: vote_slot_def)

lemma disciplined_skip:
  assumes d: "disciplined desc hist st" and w: "has_window st (get_window_idx desc s)"
    and final: "\<not> voted_final (slot_view desc st s)"
  shows "disciplined desc hist (put_slot desc s mark_voted_skip
    (broadcast_vote (Skip \<lparr>sv_slot = s\<rparr>) st))"
proof (rule disciplined_cast [OF d w])
  have wf: "wf_windows desc st" and b: "wf_ballot s (slot_view desc st s)"
    using d by (simp_all add: disciplined_def)
  show "wf_ballot s (mark_voted_skip (slot_view desc st s))"
    using b final by (simp add: wf_ballot_def)
  show "recorded_vote desc (put_slot desc s mark_voted_skip
      (broadcast_vote (Skip \<lparr>sv_slot = s\<rparr>) st)) (Skip \<lparr>sv_slot = s\<rparr>)"
    using wf w by (simp add: recorded_vote_def vote_slot_def slot_view_put_slot)
  fix v' assume "vote_slot v' = s" and "recorded_vote desc st v'"
  then show "recorded_vote desc (put_slot desc s mark_voted_skip
      (broadcast_vote (Skip \<lparr>sv_slot = s\<rparr>) st)) v' \<and> \<not> conflicting (Skip \<lparr>sv_slot = s\<rparr>) v'"
    using wf w final window_not_dropped [OF w]
    by (cases v') (auto simp: recorded_vote_def slot_view_put_slot)
qed (simp add: vote_slot_def)

lemma disciplined_cleanup:
  assumes "disciplined desc hist st"
  shows "disciplined desc hist (cleanup_slots u st)"
proof -
  have wf: "wf_windows desc (cleanup_slots u st)"
    using assms by (simp add: disciplined_def)
  have off: "leader_window_offset st \<le> leader_window_offset (cleanup_slots u st)"
    by (rule cleanup_slots_windows [of u st]) simp
  have view: "slot_view desc (cleanup_slots u st) s =
      (if get_window_idx desc s < leader_window_offset (cleanup_slots u st) then slot_default
       else slot_view desc st s)" for s
    using slot_view_cleanup [of u st desc s]
    by (auto simp: not_less slot_view_none has_window_def)
  have "wf_ballot s (slot_view desc (cleanup_slots u st) s)" for s
    using assms by (auto simp: view disciplined_def wf_ballot_def slot_default_def)
  moreover have "recorded_vote desc (cleanup_slots u st) v" if "recorded_vote desc st v" for v
    using that off by (auto simp: recorded_vote_def view)
  ultimately show ?thesis using assms wf by (simp add: disciplined_def)
qed

lemma same_ballot_refl [simp]: "same_ballot x x"
  by (simp add: same_ballot_def)

lemma same_ballot_put [simp]:
  "wf_windows desc st \<Longrightarrow> (\<And>x. same_ballot x (f x)) \<Longrightarrow>
   same_ballot (slot_view desc st t) (slot_view desc (put_slot desc s f st) t)"
  by (simp add: slot_view_put_slot)

lemma same_ballot_updates [simp]:
  "same_ballot x (x\<lparr>pending_block := a\<rparr>)"
  "same_ballot x (x\<lparr>skipped := b\<rparr>)"
  "same_ballot x (x\<lparr>observed_notar_certificate := c\<rparr>)"
  by (simp_all add: same_ballot_def)

lemma same_ballot_base: "base_update f \<Longrightarrow> same_ballot x (f x)"
  unfolding base_update_def same_ballot_def by (metis slot.select_convs(4-6,9) slot.update_convs(1) slot.surjective)

lemma disciplined_wf: "disciplined desc hist st \<Longrightarrow> wf_windows desc st"
  by (simp add: disciplined_def)

lemma cast_backed: "event_backed desc auth strict st e \<Longrightarrow> cast_vote e = None"
  by (cases e) (auto simp: event_backed_def)

interpretation disc: machine_stable desc "disciplined desc hist" auth False
proof (unfold_locales, goal_cases)
  case (1 st)
  then show ?case by (rule disciplined_wf)
next
  case (3 st s parent h)
  then show ?case by (intro disciplined_notarize)
next
  case (4 st s h)
  then show ?case by (intro disciplined_finalize)
next
  case (5 st s)
  then show ?case by (intro disciplined_skip)
next
  case (24 st u)
  then show ?case by (rule disciplined_cleanup)
qed ((frule disciplined_wf, erule disciplined_frame);
      simp add: state_defs same_ballot_base cast_backed)+

section \<open>Discipline over runs\<close>

lemma disciplined_at_time [simp]:
  "disciplined (at_time t desc) hist st = disciplined desc hist st"
  by (simp add: disciplined_def recorded_vote_def)

lemma disciplined_step:
  assumes "disciplined desc hist st" and "fsm_step desc op st = Some (out, st')"
  shows "disciplined desc (hist @ cast_votes out) st'"
proof (cases "op = PullEvent")
  case True
  show ?thesis
  proof (cases "events st")
    case Nil
    with True assms show ?thesis by (simp add: fsm_step_def pull_event_def)
  next
    case (Cons e es)
    then have st': "out = [e]" "st' = st\<lparr>events := es\<rparr>"
      using True assms(2) by (simp_all add: fsm_step_def pull_event_def)
    have "recorded_vote desc (st\<lparr>events := es\<rparr>) v = recorded_vote desc st v" for v
      by (simp add: recorded_vote_def)
    then show ?thesis
      using assms(1) Cons by (cases "cast_vote e") (auto simp: disciplined_def st')
  qed
next
  case False
  then have "out = []"
    using assms(2) by (cases op) (auto simp: fsm_step_def)
  then show ?thesis
    using disc.P_fsm_step [OF assms(1,2) False, where auth = "\<lambda>_ _ _. True"] by simp
qed

lemma disciplined_run:
  "fsm_run desc ops st = Some (outs, st') \<Longrightarrow> disciplined desc hist st \<Longrightarrow>
   disciplined desc (hist @ cast_votes outs) st'"
proof (induction ops arbitrary: st outs hist)
  case Nil
  then show ?case by simp
next
  case (Cons x ops)
  obtain t op where x: "x = (t, op)" by fastforce
  from Cons.prems(1) obtain out st1 outs' where
    1: "fsm_step (at_time t desc) op st = Some (out, st1)"
    and 2: "fsm_run desc ops st1 = Some (outs', st')" and outs: "outs = out @ outs'"
    by (auto simp: x elim!: bind_eq_SomeE)
  have "disciplined desc (hist @ cast_votes out) st1"
    using disciplined_step [OF _ 1, of hist] Cons.prems(2) by simp
  from Cons.IH [OF 2 this] show ?case by (simp add: outs)
qed

lemma disciplined_new:
  assumes "simplex_state_new desc = Some st"
  shows "disciplined desc [] st"
proof -
  have wf0: "wf_windows desc (initial_fields desc)"
    using assms
    by (auto simp: simplex_state_new_def wf_windows_def initial_fields_def slots_per_window_def
        split: if_splits)
  have "slot_view desc (initial_fields desc) s = slot_default" for s
    by (rule slot_view_none) (simp add: has_window_def initial_fields_def)
  then have "disciplined desc [] (initial_fields desc)"
    using wf0
    by (simp add: disciplined_def wf_ballot_def slot_default_def) (simp add: initial_fields_def)
  then have e: "disciplined desc [] (ensure_window_exists 0 BoundedByHorizon (initial_fields desc))"
    by (rule disc.P_ensure)
  have "get_window_idx desc 0 = 0" "get_slot_offset_in_window desc 0 = 0"
    by (simp_all add: get_window_idx_def get_slot_offset_in_window_def slot_window_index_def
        offset_in_window_def)
  then have "update_slot_at 0 0 f = put_slot desc 0 f" for f by (simp add: put_slot_def)
  then show ?thesis
    using assms e disc.P_base [OF disc.P_available_bases [OF e]]
    by (auto simp: simplex_state_new_def Let_def split: if_splits option.splits)
qed

section \<open>Misbehaviour is exactly a conflict\<close>

definition recorded_votes :: "validator_votes \<Rightarrow> vote set" where
  "recorded_votes vv =
     {Notarize n |n. notarize vv = Some n} \<union> {Finalize f |f. finalize vv = Some f} \<union>
     {Skip s |s. skip vv = Some s}"

definition is_misbehavior :: "vote_result \<Rightarrow> bool" where
  "is_misbehavior r = (case r of Misbehavior _ \<Rightarrow> True | _ \<Rightarrow> False)"

lemma bex_recorded_votes:
  "(\<exists>u \<in> recorded_votes vv. Q u) \<longleftrightarrow>
     (\<exists>n. notarize vv = Some n \<and> Q (Notarize n)) \<or>
     (\<exists>f. finalize vv = Some f \<and> Q (Finalize f)) \<or> (\<exists>s. skip vv = Some s \<and> Q (Skip s))"
  by (auto simp: recorded_votes_def)

lemma record_misbehavior_iff:
  assumes "wf_validator_votes slot (votes sv ! i)" and "i < length (votes sv)"
  shows "nv_slot v = slot \<Longrightarrow>
      is_misbehavior (fst (record_notarize_vote desc i v sig raw sv)) \<longleftrightarrow>
      (\<exists>u \<in> recorded_votes (votes sv ! i). conflicting u (Notarize v))"
    and "fv_slot f = slot \<Longrightarrow>
      is_misbehavior (fst (record_finalize_vote desc i f sig raw sv)) \<longleftrightarrow>
      (\<exists>u \<in> recorded_votes (votes sv ! i). conflicting u (Finalize f))"
    and "sv_slot s = slot \<Longrightarrow>
      is_misbehavior (fst (record_skip_vote desc i s sig raw sv)) \<longleftrightarrow>
      (\<exists>u \<in> recorded_votes (votes sv ! i). conflicting u (Skip s))"
  using assms
  by (cases "notarize (votes sv ! i)"; cases "finalize (votes sv ! i)"; cases "skip (votes sv ! i)";
      simp add: record_notarize_vote_def record_finalize_vote_def record_skip_vote_def
        get_validator_votes_def is_misbehavior_def bex_recorded_votes wf_validator_votes_def
        check_validator_invariants_def Let_def)+

lemma handle_vote_misbehavior_iff:
  assumes "accounting desc auth strict st" and "i < get_total_nodes desc"
    and "first_non_finalized_slot st \<le> vote_slot v"
  shows "is_misbehavior (fst (handle_vote desc i v sig raw st)) \<longleftrightarrow>
    (\<exists>u \<in> recorded_votes (votes (slot_votes_at (vote_slot v) st) ! i). conflicting u v)"
proof -
  have "wf_slot_votes desc auth strict (vote_slot v) (slot_votes_at (vote_slot v) st)"
    using assms(1) by (rule accounting_at)
  then have "wf_validator_votes (vote_slot v) (votes (slot_votes_at (vote_slot v) st) ! i)"
      and "i < length (votes (slot_votes_at (vote_slot v) st))"
    using assms(2) by (auto simp: wf_slot_votes_def)
  note record_misbehavior_iff [OF this]
  with assms(3) show ?thesis
    by (cases v)
      (auto simp: handle_vote_def handle_notarize_vote_def handle_finalize_vote_def
        handle_skip_vote_def vote_slot_def split_beta)
qed

end
