(* ===== verification/Simplex_Chain.thy ===== *)
theory Simplex_Chain
  imports Simplex_Machine
begin

text \<open>
  The parent chain in the abstract.  A slot may be skipped, notarised, or know a base to
  build on.  \<open>next_open\<close> is the specification of the search for the next slot that is not
  skipped; \<open>covered\<close> says that every notarised slot has handed a base to it; \<open>boundaries\<close>
  relates the ordered set of skip boundaries to the skipped slots.
\<close>

section \<open>The next open slot\<close>

definition next_open :: "(slot_index \<Rightarrow> bool) \<Rightarrow> slot_index \<Rightarrow> slot_index" where
  "next_open sk f = (LEAST t. f \<le> t \<and> \<not> sk t)"

definition bounded_skips :: "(slot_index \<Rightarrow> bool) \<Rightarrow> bool" where
  "bounded_skips sk \<longleftrightarrow> (\<exists>b. \<forall>t \<ge> b. \<not> sk t)"

lemma next_open:
  assumes "bounded_skips sk"
  shows "f \<le> next_open sk f" and "\<not> sk (next_open sk f)"
    and "\<And>t. f \<le> t \<Longrightarrow> t < next_open sk f \<Longrightarrow> sk t"
proof -
  obtain b where "\<forall>t \<ge> b. \<not> sk t" using assms by (auto simp: bounded_skips_def)
  then have "f \<le> max f b \<and> \<not> sk (max f b)" by simp
  then have "f \<le> next_open sk f \<and> \<not> sk (next_open sk f)"
    unfolding next_open_def by (rule LeastI)
  then show "f \<le> next_open sk f" "\<not> sk (next_open sk f)" by simp_all
  show "sk t" if "f \<le> t" "t < next_open sk f" for t
    using that not_less_Least [of t "\<lambda>t. f \<le> t \<and> \<not> sk t"] by (auto simp: next_open_def)
qed

lemma next_openI:
  "f \<le> t \<Longrightarrow> \<not> sk t \<Longrightarrow> (\<And>u. f \<le> u \<Longrightarrow> u < t \<Longrightarrow> sk u) \<Longrightarrow> next_open sk f = t"
  unfolding next_open_def by (rule Least_equality) (auto simp: not_le [symmetric])

lemma next_open_here: "\<not> sk f \<Longrightarrow> next_open sk f = f"
  by (rule next_openI) auto

lemma next_open_step:
  assumes "bounded_skips sk" and "sk f"
  shows "next_open sk f = next_open sk (f + 1)"
proof (rule next_openI)
  note n = next_open [OF assms(1), of "f + 1"]
  show "f \<le> next_open sk (f + 1)" using n(1) by simp
  show "\<not> sk (next_open sk (f + 1))" by (rule n(2))
  show "sk u" if "f \<le> u" "u < next_open sk (f + 1)" for u
    using that n(3) [of u] assms(2) by (cases "u = f") auto
qed

lemma bounded_skips_upd: "bounded_skips sk \<Longrightarrow> bounded_skips (sk(x := b))"
proof -
  assume "bounded_skips sk"
  then obtain c where "\<forall>t \<ge> c. \<not> sk t" by (auto simp: bounded_skips_def)
  then have "\<forall>t \<ge> max c (x + 1). \<not> (sk(x := b)) t" by simp
  then show ?thesis unfolding bounded_skips_def by blast
qed

text \<open>Skipping one more slot moves the searches that ended there and no others.\<close>

lemma next_open_skip:
  assumes "bounded_skips sk"
  shows "next_open (sk(x := True)) f =
    (if next_open sk f = x then next_open (sk(x := True)) (x + 1) else next_open sk f)"
proof (cases "next_open sk f = x")
  case True
  let ?sk = "sk(x := True)"
  note n = next_open [OF bounded_skips_upd [OF assms, of x True], of "x + 1"]
    and o = next_open [OF assms, of f]
  have "next_open ?sk f = next_open ?sk (x + 1)"
  proof (rule next_openI)
    show "f \<le> next_open ?sk (x + 1)"
      using n(1) o(1) unfolding True by (rule order.trans [OF _ order.trans [OF le_add1], rotated])
    show "?sk u" if "f \<le> u" "u < next_open ?sk (x + 1)" for u
    proof (cases "u \<le> x")
      case le: True
      show ?thesis
      proof (cases "u = x")
        case False
        then have "u < next_open sk f" using le True by simp
        then show ?thesis using o(3) [OF that(1)] by simp
      qed simp
    next
      case False
      then have "x + 1 \<le> u" by simp
      then show ?thesis using that(2) by (rule n(3))
    qed
  qed (rule n(2))
  with True show ?thesis by simp
next
  case False
  note o = next_open [OF assms, of f]
  have "next_open (sk(x := True)) f = next_open sk f"
  proof (rule next_openI)
    show "f \<le> next_open sk f" by (rule o(1))
    show "\<not> (sk(x := True)) (next_open sk f)" using o(2) False by simp
    show "(sk(x := True)) u" if "f \<le> u" "u < next_open sk f" for u
      using o(3) [OF that] by simp
  qed
  with False show ?thesis by simp
qed

section \<open>Every notarised slot has a base behind it\<close>

definition covered ::
  "slot_index \<Rightarrow> (slot_index \<Rightarrow> bool) \<Rightarrow> (slot_index \<Rightarrow> bool) \<Rightarrow> (slot_index \<Rightarrow> bool) \<Rightarrow> bool" where
  "covered F sk nt bs \<longleftrightarrow>
     bs (next_open sk F) \<and> (\<forall>s \<ge> F. nt s \<longrightarrow> bs (next_open sk (s + 1)))"

lemma covered_mono: "covered F sk nt bs \<Longrightarrow> \<forall>s. bs s \<longrightarrow> bs' s \<Longrightarrow> covered F sk nt bs'"
  unfolding covered_def by blast

lemma covered_notar:
  "covered F sk nt bs \<Longrightarrow> bs (next_open sk (x + 1)) \<Longrightarrow> covered F sk (nt(x := True)) bs"
  by (simp add: covered_def)

lemma covered_final: "covered F sk nt bs \<Longrightarrow> F \<le> x \<Longrightarrow> nt x \<Longrightarrow> covered (x + 1) sk nt bs"
  by (simp add: covered_def)

lemma covered_skip:
  assumes "covered F sk nt bs" and "bounded_skips sk" and mono: "\<forall>s. bs s \<longrightarrow> bs' s"
    and base: "bs x \<Longrightarrow> bs' (next_open (sk(x := True)) (x + 1))"
  shows "covered F (sk(x := True)) nt bs'"
proof -
  have "bs' (next_open (sk(x := True)) f)" if "bs (next_open sk f)" for f
    using that mono base by (subst next_open_skip [OF assms(2)]) auto
  with assms(1) show ?thesis unfolding covered_def by blast
qed

text \<open>The first slot that has not progressed has a base.\<close>

lemma covered_cursor:
  assumes "covered F sk nt bs" and "bounded_skips sk" and "F \<le> N" and "\<not> sk N"
    and "\<And>s. F \<le> s \<Longrightarrow> s < N \<Longrightarrow> sk s \<or> nt s"
  shows "bs N"
proof (cases "\<exists>s. F \<le> s \<and> s < N \<and> nt s")
  case False
  then have "next_open sk F = N" using assms(3,4) assms(5) by (intro next_openI) blast+
  with assms(1) show ?thesis by (auto simp: covered_def)
next
  case True
  define u where "u = Max {s. F \<le> s \<and> s < N \<and> nt s}"
  have fin: "finite {s. F \<le> s \<and> s < N \<and> nt s}" by simp
  have "u \<in> {s. F \<le> s \<and> s < N \<and> nt s}"
    unfolding u_def using fin True by (intro Max_in) auto
  then have u: "F \<le> u" "u < N" "nt u" by simp_all
  have "sk s" if "u < s" "s < N" for s
    using assms(5) [of s] that u(1) Max_ge [OF fin, of s, folded u_def] by auto
  then have "next_open sk (u + 1) = N" using u(2) assms(4) by (intro next_openI) auto
  with assms(1) u show ?thesis by (auto simp: covered_def)
qed

section \<open>Skip boundaries\<close>

definition boundaries :: "slot_index \<Rightarrow> (slot_index \<Rightarrow> bool) \<Rightarrow> slot_index list \<Rightarrow> bool" where
  "boundaries F sk xs \<longleftrightarrow>
     sorted_wrt (<) xs \<and> (\<forall>x \<in> set xs. F \<le> x \<longrightarrow> \<not> sk x) \<and>
     (\<forall>s \<ge> F. sk s \<longrightarrow> \<not> sk (s + 1) \<longrightarrow> s + 1 \<in> set xs)"

lemma skip_lower_bound_Some:
  "sorted_wrt (<) xs \<Longrightarrow> skip_lower_bound n xs = Some b \<Longrightarrow>
   b \<in> set xs \<and> n \<le> b \<and> (\<forall>x \<in> set xs. n \<le> x \<longrightarrow> b \<le> x)"
  unfolding skip_lower_bound_def by (induction xs) (auto split: if_splits)

lemma skip_lower_bound_None: "skip_lower_bound n xs = None \<longleftrightarrow> (\<forall>x \<in> set xs. x < n)"
  unfolding skip_lower_bound_def by (auto simp: find_None_iff)

lemma boundaries_lookup:
  assumes "boundaries F sk xs" and "bounded_skips sk" and "F \<le> n" and "sk n"
  shows "skip_lower_bound n xs = Some (next_open sk n)"
proof -
  let ?t = "next_open sk n"
  note t = next_open [OF assms(2), of n]
  from t assms(4) have "n < ?t" by (metis le_neq_implies_less)
  then obtain u where u: "?t = u + 1" "n \<le> u" by (metis add.commute less_iff_Suc_add nat_arith.suc1 le_add1 Suc_eq_plus1)
  have "sk u" using t(3) [of u] u by simp
  then have mem: "?t \<in> set xs"
    using assms(1,3) t(2) u unfolding boundaries_def by (metis le_trans)
  then obtain b where b: "skip_lower_bound n xs = Some b"
    using skip_lower_bound_None [of n xs] t(1) by (cases "skip_lower_bound n xs") auto
  have "sorted_wrt (<) xs" using assms(1) by (simp add: boundaries_def)
  from skip_lower_bound_Some [OF this b] have "b \<in> set xs" "n \<le> b" "b \<le> ?t"
    using mem t(1) by auto
  moreover have "\<not> sk b"
    using assms(1,3) calculation by (auto simp: boundaries_def)
  ultimately show ?thesis using b t(3) [of b] by (metis le_neq_implies_less)
qed

lemma sorted_insort_less:
  "sorted_wrt (<) xs \<Longrightarrow> sorted_wrt (<) (btree_insert x xs)" for x :: nat
  unfolding btree_insert_def
  by (simp add: strict_sorted_iff distinct_insort sorted_insort)

lemma set_btree [simp]:
  "set (btree_insert y zs) = insert y (set zs)" "set (btree_remove y zs) = set zs - {y}"
  by (auto simp: btree_insert_def btree_remove_def set_insort_key)

lemma boundaries_skip:
  assumes "boundaries F sk xs"
  shows "boundaries F (sk(x := True))
    (if (sk(x := True)) (x + 1) then btree_remove x xs
     else btree_insert (x + 1) (btree_remove x xs))" (is "boundaries F ?sk ?xs")
proof -
  have xs: "sorted_wrt (<) xs" "\<And>y. y \<in> set xs \<Longrightarrow> F \<le> y \<Longrightarrow> \<not> sk y"
    "\<And>s. F \<le> s \<Longrightarrow> sk s \<Longrightarrow> \<not> sk (s + 1) \<Longrightarrow> s + 1 \<in> set xs"
    using assms by (auto simp only: boundaries_def)
  have "sorted_wrt (<) (btree_remove x xs)"
    using xs(1) by (simp add: btree_remove_def sorted_wrt_filter removeAll_filter_not_eq)
  then have "sorted_wrt (<) ?xs" by (simp add: sorted_insort_less)
  moreover have "\<not> ?sk y" if "y \<in> set ?xs" "F \<le> y" for y
    using that xs(2) [of y] by (auto split: if_splits)
  moreover have "s + 1 \<in> set ?xs" if "F \<le> s" "?sk s" "\<not> ?sk (s + 1)" for s
    using that xs(3) [of s] by (cases "s = x") (auto split: if_splits)
  ultimately show ?thesis unfolding boundaries_def by blast
qed

lemma boundaries_prune:
  assumes "boundaries F sk xs" and "F \<le> F'"
  shows "boundaries F' sk (dropWhile (\<lambda>s. s < F') xs)"
proof -
  have eq: "dropWhile (\<lambda>s. s < F') xs = filter (\<lambda>s. F' \<le> s) xs"
    if "sorted_wrt (<) xs" for xs
    using that
  proof (induction xs)
    case (Cons a xs)
    then show ?case by (cases "a < F'") (auto intro!: filter_True [symmetric])
  qed simp
  have xs: "sorted_wrt (<) xs" "\<And>y. y \<in> set xs \<Longrightarrow> F \<le> y \<Longrightarrow> \<not> sk y"
    "\<And>s. F \<le> s \<Longrightarrow> sk s \<Longrightarrow> \<not> sk (s + 1) \<Longrightarrow> s + 1 \<in> set xs"
    using assms by (auto simp only: boundaries_def)
  have "\<not> sk y" if "y \<in> set (filter (\<lambda>s. F' \<le> s) xs)" "F' \<le> y" for y
    using that xs(2) [of y] assms(2) by auto
  moreover have "s + 1 \<in> set (filter (\<lambda>s. F' \<le> s) xs)"
    if "F' \<le> s" "sk s" "\<not> sk (s + 1)" for s
    using that xs(3) [of s] assms(2) by auto
  moreover have "sorted_wrt (<) (filter (\<lambda>s. F' \<le> s) xs)"
    using xs(1) by (rule sorted_wrt_filter)
  ultimately show ?thesis unfolding boundaries_def eq [OF xs(1)] by blast
qed

text \<open>Slots below the finalised boundary do not matter.\<close>

lemma next_open_cong: "(\<And>s. f \<le> s \<Longrightarrow> sk s = sk' s) \<Longrightarrow> next_open sk f = next_open sk' f"
  unfolding next_open_def by (rule arg_cong [where f = Least]) auto

lemma covered_cong:
  assumes "bounded_skips sk"
    and "\<And>s. F \<le> s \<Longrightarrow> sk' s = sk s" "\<And>s. F \<le> s \<Longrightarrow> nt' s = nt s" "\<And>s. F \<le> s \<Longrightarrow> bs' s = bs s"
  shows "covered F sk' nt' bs' \<longleftrightarrow> covered F sk nt bs"
proof -
  have n: "next_open sk' f = next_open sk f" if "F \<le> f" for f
    using assms(2) that by (intro next_open_cong) auto
  have b: "bs' (next_open sk' f) = bs (next_open sk f)" if "F \<le> f" for f
    unfolding n [OF that] using next_open(1) [OF assms(1), of f] that by (intro assms(4)) simp
  have "(\<forall>s \<ge> F. nt' s \<longrightarrow> bs' (next_open sk' (s + 1))) \<longleftrightarrow>
      (\<forall>s \<ge> F. nt s \<longrightarrow> bs (next_open sk (s + 1)))"
  proof (intro all_cong imp_cong)
    fix s assume "F \<le> s"
    then show "nt' s = nt s" and "bs' (next_open sk' (s + 1)) = bs (next_open sk (s + 1))"
      by (simp_all only: assms(3) b trans_le_add1)
  qed
  then show ?thesis unfolding covered_def using b [OF le_refl] by simp
qed

lemma boundaries_cong:
  "(\<And>s. F \<le> s \<Longrightarrow> sk' s = sk s) \<Longrightarrow> boundaries F sk' xs \<longleftrightarrow> boundaries F sk xs"
  by (simp add: boundaries_def)

end
