(* ===== verification/Simplex_Progress.thy ===== *)
theory Simplex_Progress
  imports Simplex_Chain
begin

text \<open>
  The parent chain and the cursors of the machine.  The slot view is abstracted to three
  predicates on slots and the invariant \<open>progress\<close> ties them to the cursors; every
  propagation operation is shown to keep it, and window advancement to find the base it
  insists on.
\<close>

section \<open>The abstraction\<close>

definition skipped_at :: "session_description \<Rightarrow> simplex_state \<Rightarrow> slot_index \<Rightarrow> bool" where
  "skipped_at desc st s = skipped (slot_view desc st s)"

definition notarized_at :: "session_description \<Rightarrow> simplex_state \<Rightarrow> slot_index \<Rightarrow> bool" where
  "notarized_at desc st s = (observed_notar_certificate (slot_view desc st s) \<noteq> None)"

definition base_at :: "session_description \<Rightarrow> simplex_state \<Rightarrow> slot_index \<Rightarrow> bool" where
  "base_at desc st s = (available_base (slot_view desc st s) \<noteq> None)"

lemmas at_defs = skipped_at_def notarized_at_def base_at_def

lemma at_window:
  "skipped_at desc st s \<Longrightarrow> has_window st (get_window_idx desc s)"
  "notarized_at desc st s \<Longrightarrow> has_window st (get_window_idx desc s)"
  "base_at desc st s \<Longrightarrow> has_window st (get_window_idx desc s)"
  by (rule ccontr, simp add: at_defs slot_view_none slot_default_def)+

lemma bounded_skipped_at:
  assumes "wf_windows desc st"
  shows "bounded_skips (skipped_at desc st)"
proof -
  let ?n = "leader_window_offset st + length (leader_windows st)"
  have "\<not> skipped_at desc st t" if "?n * slots_per_window desc \<le> t" for t
  proof
    assume "skipped_at desc st t"
    then have "t div slots_per_window desc < ?n"
      using at_window(1) [of desc st t]
      by (simp add: has_window_def get_window_idx_def slot_window_index_def slots_per_window_def)
    then show False
      using that wf_windows_pos [OF assms] by (simp add: div_less_iff_less_mult)
  qed
  then show ?thesis unfolding bounded_skips_def by blast
qed

text \<open>A slot the vote horizon admits, or that certificates have reached: its successor
  has a window, or may be given one.\<close>

definition within_reach :: "session_description \<Rightarrow> simplex_state \<Rightarrow> slot_index \<Rightarrow> bool" where
  "within_reach desc st s \<longleftrightarrow>
     s < u32_max \<and>
     get_window_idx desc (s + 1) \<le> max_acceptable_slot st div slots_per_leader_window st + 1"

definition chain :: "session_description \<Rightarrow> simplex_state \<Rightarrow> bool" where
  "chain desc st \<longleftrightarrow>
     wf_windows desc st \<and>
     leader_window_offset st * slots_per_window desc \<le> first_non_finalized_slot st \<and>
     boundaries (first_non_finalized_slot st) (skipped_at desc st) (skip_intervals st) \<and>
     covered (first_non_finalized_slot st) (skipped_at desc st) (notarized_at desc st) (base_at desc st) \<and>
     (\<forall>s \<ge> first_non_finalized_slot st.
        skipped_at desc st s \<or> notarized_at desc st s \<longrightarrow> within_reach desc st s)"

definition cursor :: "session_description \<Rightarrow> simplex_state \<Rightarrow> bool" where
  "cursor desc st \<longleftrightarrow>
     first_non_finalized_slot st \<le> first_non_progressed_slot st \<and>
     first_non_progressed_slot st \<le> u32_max \<and>
     (\<forall>s. first_non_finalized_slot st \<le> s \<and> s < first_non_progressed_slot st \<longrightarrow>
        skipped_at desc st s \<or> notarized_at desc st s)"

definition settled :: "session_description \<Rightarrow> simplex_state \<Rightarrow> bool" where
  "settled desc st \<longleftrightarrow>
     \<not> skipped_at desc st (first_non_progressed_slot st) \<and>
     \<not> notarized_at desc st (first_non_progressed_slot st)"

definition progress :: "session_description \<Rightarrow> simplex_state \<Rightarrow> bool" where
  "progress desc st \<longleftrightarrow>
     chain desc st \<and> cursor desc st \<and> settled desc st \<and> \<not> startup_replay_active st \<and>
     current_leader_window_idx st = get_window_idx desc (first_non_progressed_slot st)"

section \<open>Operations that leave the chain alone\<close>

definition same_cursors :: "simplex_state \<Rightarrow> simplex_state \<Rightarrow> bool" where
  "same_cursors st0 st \<longleftrightarrow>
     leader_window_offset st = leader_window_offset st0 \<and>
     first_non_finalized_slot st = first_non_finalized_slot st0 \<and>
     first_non_progressed_slot st = first_non_progressed_slot st0 \<and>
     skip_intervals st = skip_intervals st0 \<and>
     slots_per_leader_window st = slots_per_leader_window st0 \<and>
     max_leader_window_desync st = max_leader_window_desync st0 \<and>
     startup_replay_active st = startup_replay_active st0"

definition keeps :: "session_description \<Rightarrow> simplex_state \<Rightarrow> simplex_state \<Rightarrow> bool" where
  "keeps desc st0 st \<longleftrightarrow>
     wf_windows desc st \<and> same_cursors st0 st \<and>
     current_leader_window_idx st = current_leader_window_idx st0 \<and>
     skipped_at desc st = skipped_at desc st0 \<and> notarized_at desc st = notarized_at desc st0 \<and>
     (\<forall>s. base_at desc st0 s \<longrightarrow> base_at desc st s)"

lemma at_frame [simp]:
  assumes "wf_windows desc st"
  shows "skipped_at desc (ensure_window_exists w alloc st) = skipped_at desc st"
    "notarized_at desc (ensure_window_exists w alloc st) = notarized_at desc st"
    "base_at desc (ensure_window_exists w alloc st) = base_at desc st"
  using assms by (simp_all add: at_defs fun_eq_iff)

lemma at_update [simp]:
  "skipped_at desc (st\<lparr>first_non_progressed_slot := n\<rparr>) = skipped_at desc st"
  "skipped_at desc (st\<lparr>first_non_finalized_slot := n\<rparr>) = skipped_at desc st"
  "skipped_at desc (st\<lparr>current_leader_window_idx := n\<rparr>) = skipped_at desc st"
  "skipped_at desc (st\<lparr>skip_intervals := xs\<rparr>) = skipped_at desc st"
  "skipped_at desc (put_slot_votes s sv st) = skipped_at desc st"
  "skipped_at desc (push_event_back e st) = skipped_at desc st"
  "notarized_at desc (st\<lparr>first_non_progressed_slot := n\<rparr>) = notarized_at desc st"
  "notarized_at desc (st\<lparr>first_non_finalized_slot := n\<rparr>) = notarized_at desc st"
  "notarized_at desc (st\<lparr>current_leader_window_idx := n\<rparr>) = notarized_at desc st"
  "notarized_at desc (st\<lparr>skip_intervals := xs\<rparr>) = notarized_at desc st"
  "notarized_at desc (put_slot_votes s sv st) = notarized_at desc st"
  "notarized_at desc (push_event_back e st) = notarized_at desc st"
  "base_at desc (st\<lparr>first_non_progressed_slot := n\<rparr>) = base_at desc st"
  "base_at desc (st\<lparr>first_non_finalized_slot := n\<rparr>) = base_at desc st"
  "base_at desc (st\<lparr>current_leader_window_idx := n\<rparr>) = base_at desc st"
  "base_at desc (st\<lparr>skip_intervals := xs\<rparr>) = base_at desc st"
  "base_at desc (put_slot_votes s sv st) = base_at desc st"
  "base_at desc (push_event_back e st) = base_at desc st"
  by (simp_all add: at_defs fun_eq_iff)

lemma at_put_slot:
  assumes "wf_windows desc st"
  shows "(\<And>x. skipped (f x) = skipped x) \<Longrightarrow> skipped_at desc (put_slot desc s f st) = skipped_at desc st"
    and "(\<And>x. observed_notar_certificate (f x) = observed_notar_certificate x) \<Longrightarrow>
         notarized_at desc (put_slot desc s f st) = notarized_at desc st"
    and "(\<And>x. available_base (f x) = available_base x) \<Longrightarrow>
         base_at desc (put_slot desc s f st) = base_at desc st"
  by (auto simp: at_defs fun_eq_iff slot_view_put_slot [OF assms])

lemma at_view_eq:
  "slot_view desc st = slot_view desc st' \<Longrightarrow>
   skipped_at desc st = skipped_at desc st' \<and> notarized_at desc st = notarized_at desc st' \<and>
   base_at desc st = base_at desc st'"
  by (simp add: at_defs fun_eq_iff)

lemma keeps_refl [simp]: "keeps desc st st = wf_windows desc st"
  by (simp add: keeps_def same_cursors_def)

lemma keeps_wf: "keeps desc st0 st \<Longrightarrow> wf_windows desc st"
  by (simp add: keeps_def)

lemma keeps_trans: "keeps desc a b \<Longrightarrow> keeps desc b c \<Longrightarrow> keeps desc a c"
  by (auto simp: keeps_def same_cursors_def)

lemma keeps_view:
  "keeps desc st0 st \<Longrightarrow> slot_view desc st' = slot_view desc st \<Longrightarrow> wf_windows desc st' \<Longrightarrow>
   same_cursors st st' \<Longrightarrow> current_leader_window_idx st' = current_leader_window_idx st \<Longrightarrow>
   keeps desc st0 st'"
  using at_view_eq [of desc st' st] by (simp add: keeps_def same_cursors_def)

lemma keeps_put:
  assumes "keeps desc st0 st"
    and "\<And>x. skipped (f x) = skipped x"
    and "\<And>x. observed_notar_certificate (f x) = observed_notar_certificate x"
    and "\<And>x. available_base x \<noteq> None \<Longrightarrow> available_base (f x) \<noteq> None"
  shows "keeps desc st0 (put_slot desc s f st)"
proof -
  have wf: "wf_windows desc st" using assms(1) by (simp add: keeps_def)
  have "base_at desc (put_slot desc s f st) t" if "base_at desc st t" for t
    using that assms(4) by (auto simp: base_at_def slot_view_put_slot [OF wf])
  then show ?thesis
    using assms(1) by (simp add: keeps_def same_cursors_def at_put_slot(1,2) [OF wf] assms(2,3))
qed

interpretation keeps: voting_stable desc "keeps desc st0"
proof (unfold_locales, goal_cases)
  case (1 st)
  then show ?case by (simp add: keeps_def)
next
  case (2 st idx alloc)
  then show ?case
    by (intro keeps_view [OF 2]) (simp_all add: keeps_def same_cursors_def)
next
  case (3 st s parent h)
  then show ?case
    by (intro keeps_put keeps_view [OF 3(1)]) (simp_all add: keeps_def same_cursors_def)
next
  case (4 st s h)
  then show ?case
    by (intro keeps_put keeps_view [OF 4(1)]) (simp_all add: keeps_def same_cursors_def)
next
  case (5 st s)
  then show ?case
    by (intro keeps_put keeps_view [OF 5(1)]) (simp_all add: keeps_def same_cursors_def)
next
  case (6 st s c)
  then show ?case by (intro keeps_put) simp_all
qed ((frule keeps_wf, erule keeps_view); simp add: same_cursors_def)+

lemma keeps_base:
  "keeps desc st0 st \<Longrightarrow> base_update f \<Longrightarrow> keeps desc st0 (put_slot desc s f st)"
proof (rule keeps_put)
  fix x assume "base_update f"
  then have "f x = x \<or> (\<exists>b. f x = x\<lparr>available_base := Some b\<rparr>)" by (simp add: base_update_def)
  then show "skipped (f x) = skipped x" "observed_notar_certificate (f x) = observed_notar_certificate x"
    "available_base x \<noteq> None \<Longrightarrow> available_base (f x) \<noteq> None"
    by auto
qed

lemma within_reach_cong:
  "same_cursors st0 st \<Longrightarrow> within_reach desc st s = within_reach desc st0 s"
  by (simp add: within_reach_def same_cursors_def max_acceptable_slot_def max_future_slot_span_def)

lemma keeps_chain: "keeps desc st0 st \<Longrightarrow> chain desc st0 \<Longrightarrow> chain desc st"
proof -
  assume k: "keeps desc st0 st" and c: "chain desc st0"
  then have "covered (first_non_finalized_slot st0) (skipped_at desc st0) (notarized_at desc st0)
      (base_at desc st)"
    unfolding keeps_def chain_def by (blast intro: covered_mono)
  moreover have "within_reach desc st = within_reach desc st0"
    using k by (simp add: keeps_def within_reach_cong fun_eq_iff)
  ultimately show "chain desc st"
    using k c by (simp add: keeps_def chain_def same_cursors_def)
qed

lemma keeps_cursor: "keeps desc st0 st \<Longrightarrow> cursor desc st = cursor desc st0"
  by (simp add: keeps_def cursor_def same_cursors_def)

lemma keeps_settled: "keeps desc st0 st \<Longrightarrow> settled desc st = settled desc st0"
  by (simp add: keeps_def settled_def same_cursors_def)

lemma keeps_progress: "keeps desc st0 st \<Longrightarrow> progress desc st0 \<Longrightarrow> progress desc st"
  using keeps_chain [of desc st0 st] keeps_cursor [of desc st0 st] keeps_settled [of desc st0 st]
  by (simp add: progress_def) (simp add: keeps_def same_cursors_def)

section \<open>The search for the next slot that is not skipped\<close>

lemma window_tracked:
  assumes "leader_window_offset st * slots_per_window desc \<le> first_non_finalized_slot st"
    and "wf_windows desc st" and "first_non_finalized_slot st \<le> s"
  shows "leader_window_offset st \<le> get_window_idx desc s"
proof -
  have "leader_window_offset st * slots_per_window desc \<le> s" using assms(1,3) by simp
  then show ?thesis
    using wf_windows_pos [OF assms(2)]
    by (simp add: get_window_idx_def slot_window_index_def slots_per_window_def
        less_eq_div_iff_mult_less_eq)
qed

lemma skipped_cert_at_bounded:
  "first_non_finalized_slot st \<le> s \<Longrightarrow>
   is_slot_skipped_cert_at desc s BoundedByHorizon st = (skipped_at desc st s, st)"
  by (simp add: is_slot_skipped_cert_at_def is_slot_skipped_cert_view skipped_at_def)

lemma skipped_cert_at_verified:
  assumes "leader_window_offset st * slots_per_window desc \<le> first_non_finalized_slot st"
    and "wf_windows desc st" and "first_non_finalized_slot st \<le> s"
  shows "is_slot_skipped_cert_at desc s VerifiedCertificate st =
    (skipped_at desc st s, ensure_window_exists (get_window_idx desc s) VerifiedCertificate st)"
  using window_tracked [OF assms] assms(2,3)
  by (simp add: is_slot_skipped_cert_at_def get_slot_mut_view Let_def has_window_ensure skipped_at_def)

text \<open>The skip boundaries may miss the slot that has just been skipped: the search starts
  behind it.\<close>

lemma find_next_bounded:
  assumes "wf_windows desc st"
    and "boundaries (first_non_finalized_slot st) sk (skip_intervals st)" and "bounded_skips sk"
    and agree: "\<And>t. s < t \<Longrightarrow> skipped_at desc st t = sk t"
    and "first_non_finalized_slot st \<le> s + 1"
  shows "find_next_nonskipped_slot desc s BoundedByHorizon st =
    (Some (next_open (skipped_at desc st) (s + 1)), st)"
proof (cases "skipped_at desc st (s + 1)")
  case False
  then show ?thesis
    using assms(5)
    by (simp add: find_next_nonskipped_slot_def skipped_cert_at_bounded next_open_here)
next
  case True
  let ?t = "next_open (skipped_at desc st) (s + 1)"
  have eq: "next_open sk (s + 1) = ?t" using agree by (intro next_open_cong) auto
  have "skip_lower_bound (s + 1) (skip_intervals st) = Some ?t"
    using boundaries_lookup [OF assms(2,3,5)] True agree [of "s + 1"] eq by simp
  moreover note next_open(1,2) [OF bounded_skipped_at [OF assms(1)], of "s + 1"]
  ultimately show ?thesis
    using True assms(5) by (simp add: find_next_nonskipped_slot_def skipped_cert_at_bounded)
qed

lemma find_next_verified:
  assumes "wf_windows desc st"
    and "leader_window_offset st * slots_per_window desc \<le> first_non_finalized_slot st"
    and "boundaries (first_non_finalized_slot st) (skipped_at desc st) (skip_intervals st)"
    and "first_non_finalized_slot st \<le> s + 1"
  obtains st' where "find_next_nonskipped_slot desc s VerifiedCertificate st =
    (Some (next_open (skipped_at desc st) (s + 1)), st')" "keeps desc st st'"
proof -
  let ?e = "\<lambda>t st. ensure_window_exists (get_window_idx desc t) VerifiedCertificate st"
  let ?st1 = "?e (s + 1) st" and ?t = "next_open (skipped_at desc st) (s + 1)"
  have k: "keeps desc st ?st1" "keeps desc st (?e ?t ?st1)"
    using assms(1) by (simp_all add: keeps.P_ensure)
  note n = next_open(1,2) [OF bounded_skipped_at [OF assms(1)], of "s + 1"]
  show ?thesis
  proof (cases "skipped_at desc st (s + 1)")
    case False
    with assms k(1) that show ?thesis
      by (simp add: find_next_nonskipped_slot_def skipped_cert_at_verified next_open_here)
  next
    case True
    have "skip_lower_bound (s + 1) (skip_intervals ?st1) = Some ?t"
      using boundaries_lookup [OF assms(3) bounded_skipped_at [OF assms(1)] assms(4) True] by simp
    moreover have "is_slot_skipped_cert_at desc ?t VerifiedCertificate ?st1 = (False, ?e ?t ?st1)"
      using assms(1,2,4) n by (subst skipped_cert_at_verified) simp_all
    ultimately show ?thesis
      using True assms(1,2,4) k(2)
      by (intro that [of "?e ?t ?st1"])
        (simp_all add: find_next_nonskipped_slot_def skipped_cert_at_verified)
  qed
qed

section \<open>Handing a base to a slot\<close>

lemma grant_base:
  assumes "wf_windows desc st"
    and "leader_window_offset st * slots_per_window desc \<le> first_non_finalized_slot st"
    and "first_non_finalized_slot st \<le> t"
    and "alloc = VerifiedCertificate \<or>
         get_window_idx desc t \<le> max_acceptable_slot st div slots_per_leader_window st + 1"
  shows "keeps desc st (modify_slot desc t alloc (add_available_base_max b) st)"
    and "base_at desc (modify_slot desc t alloc (add_available_base_max b) st) t"
proof -
  let ?e = "ensure_window_exists (get_window_idx desc t) alloc st"
  have "keeps desc st ?e" using assms(1) by (simp add: keeps.P_ensure)
  then show "keeps desc st (modify_slot desc t alloc (add_available_base_max b) st)"
    using assms(1) by (simp add: modify_slot_eq keeps_base)
  have "has_window ?e (get_window_idx desc t)"
    using window_tracked [OF assms(2,1,3)] assms(4) by (auto simp: has_window_ensure)
  then show "base_at desc (modify_slot desc t alloc (add_available_base_max b) st) t"
    using assms(1,3)
    by (simp add: base_at_def modify_slot_eq slot_view_put_slot add_available_base_max_def
        split: option.split)
qed

text \<open>The successor of a run of marked slots is within the allocation bound.\<close>

lemma next_open_reach:
  assumes "wf_windows desc st" and "within_reach desc st s"
    and "\<And>t. s < t \<Longrightarrow> skipped_at desc st t \<Longrightarrow> within_reach desc st t"
  shows "get_window_idx desc (next_open (skipped_at desc st) (s + 1))
    \<le> max_acceptable_slot st div slots_per_leader_window st + 1"
proof -
  let ?t = "next_open (skipped_at desc st) (s + 1)"
  note n = next_open [OF bounded_skipped_at [OF assms(1)], of "s + 1"]
  obtain u where u: "?t = u + 1" "s \<le> u"
    using n(1) by (metis Suc_eq_plus1 Suc_le_D Suc_le_mono)
  have "within_reach desc st u"
  proof (cases "u = s")
    case False
    with u have "skipped_at desc st u" by (intro n(3)) simp_all
    then show ?thesis using u(2) False by (intro assms(3)) simp_all
  qed (simp add: assms(2))
  then show ?thesis unfolding u(1) by (simp add: within_reach_def)
qed

section \<open>Moving the cursor\<close>

lemma max_acceptable_mono:
  "max_leader_window_desync st' = max_leader_window_desync st \<Longrightarrow>
   slots_per_leader_window st' = slots_per_leader_window st \<Longrightarrow>
   first_non_progressed_slot st \<le> first_non_progressed_slot st' \<Longrightarrow>
   max_acceptable_slot st \<le> max_acceptable_slot st'"
  by (auto simp: max_acceptable_slot_def max_future_slot_span_def saturating_add_u32_def)

lemma within_reach_mono:
  assumes "within_reach desc st s" and "max_leader_window_desync st' = max_leader_window_desync st"
    and "slots_per_leader_window st' = slots_per_leader_window st"
    and "first_non_progressed_slot st \<le> first_non_progressed_slot st'"
  shows "within_reach desc st' s"
  using assms(1) div_le_mono [OF max_acceptable_mono [OF assms(2-4)], of "slots_per_leader_window st"]
  unfolding within_reach_def assms(3) by linarith

lemma chain_cursor:
  assumes "chain desc st" and "first_non_progressed_slot st \<le> n"
  shows "chain desc (st\<lparr>first_non_progressed_slot := n\<rparr>)"
proof -
  have "within_reach desc (st\<lparr>first_non_progressed_slot := n\<rparr>) s" if "within_reach desc st s" for s
    using that by (rule within_reach_mono) (simp_all add: assms(2))
  then show ?thesis using assms(1) by (simp add: chain_def)
qed

lemma progressed_at:
  "is_slot_progressed desc st s \<longleftrightarrow>
     first_non_finalized_slot st \<le> s \<and> (skipped_at desc st s \<or> notarized_at desc st s)"
  by (simp add: is_slot_progressed_view at_defs)

lemma advance_cursor_stays:
  "\<not> is_slot_progressed desc st (first_non_progressed_slot st) \<Longrightarrow> advance_progress_cursor desc st = st"
  by (subst advance_progress_cursor.simps) simp

lemma advance_cursor:
  assumes "chain desc st" and "cursor desc st"
  shows "chain desc (advance_progress_cursor desc st)" (is ?A)
    and "cursor desc (advance_progress_cursor desc st)" (is ?B)
    and "settled desc (advance_progress_cursor desc st)" (is ?C)
proof -
  have "?A \<and> ?B \<and> ?C"
    using assms
  proof (induction desc st rule: advance_progress_cursor.induct)
    case (1 desc st)
    let ?n = "first_non_progressed_slot st"
    show ?case
    proof (cases "is_slot_progressed desc st ?n")
      case True
      have pos: "0 < opt_slots_per_leader_window (options desc)"
        using 1(2) by (simp add: chain_def wf_windows_def slots_per_window_def)
      have eq: "advance_progress_cursor desc st =
          advance_progress_cursor desc (st\<lparr>first_non_progressed_slot := ?n + 1\<rparr>)"
        by (subst advance_progress_cursor.simps) (simp only: True pos simp_thms if_True)
      have "?n < u32_max"
        using True 1(2) by (auto simp: progressed_at chain_def within_reach_def)
      then have "cursor desc (st\<lparr>first_non_progressed_slot := ?n + 1\<rparr>)"
        using True 1(3) by (auto simp: cursor_def progressed_at less_Suc_eq)
      moreover have "chain desc (st\<lparr>first_non_progressed_slot := ?n + 1\<rparr>)"
        using 1(2) by (rule chain_cursor) simp
      ultimately show ?thesis
        unfolding eq using pos True by (intro 1(1)) simp_all
    next
      case False
      then show ?thesis
        using 1(2,3) by (auto simp: advance_cursor_stays progressed_at settled_def cursor_def)
    qed
  qed
  then show ?A ?B ?C by simp_all
qed

lemma advance_cursor_frame [simp]:
  "first_non_finalized_slot (advance_progress_cursor desc st) = first_non_finalized_slot st"
  "current_leader_window_idx (advance_progress_cursor desc st) = current_leader_window_idx st"
  "startup_replay_active (advance_progress_cursor desc st) = startup_replay_active st"
  by (subst advance_progress_cursor_closed, simp)+

section \<open>Entering a leader window\<close>

lemma enter_leader_window_keeps:
  assumes "wf_windows desc st"
  shows "keeps desc (st\<lparr>current_leader_window_idx := w\<rparr>) (enter_leader_window desc w b st)"
proof -
  let ?st2 = "apply_adaptive_timeout_backoff desc st"
  let ?st3 = "set_timeouts desc (?st2\<lparr>current_leader_window_idx := w\<rparr>)"
  have "keeps desc (st\<lparr>current_leader_window_idx := w\<rparr>) ?st3"
    using assms
    by (intro keeps_view [OF iffD2 [OF keeps_refl], of _ "st\<lparr>current_leader_window_idx := w\<rparr>"])
      (simp_all add: apply_adaptive_timeout_backoff_def state_defs same_cursors_def)
  then have 4: "keeps desc (st\<lparr>current_leader_window_idx := w\<rparr>)
      (ensure_window_exists w BoundedByHorizon ?st3)" (is "keeps _ _ ?st4")
    by (rule keeps.P_ensure)
  have "keeps desc (st\<lparr>current_leader_window_idx := w\<rparr>)
      (update_window w (\<lambda>w. w\<lparr>lw_available_bases := insert b (lw_available_bases w)\<rparr>) ?st4)"
    using keeps_wf [OF 4] by (intro keeps_view [OF 4]) (simp_all add: same_cursors_def)
  then show ?thesis
    by (simp add: enter_leader_window_def Let_def modify_slot_eq keeps_base keeps.P_ensure)
qed

lemma cursor_base:
  "chain desc st \<Longrightarrow> cursor desc st \<Longrightarrow> settled desc st \<Longrightarrow>
   base_at desc st (first_non_progressed_slot st)"
  by (rule covered_cursor [of "first_non_finalized_slot st" "skipped_at desc st" "notarized_at desc st"])
    (auto simp: chain_def cursor_def settled_def bounded_skipped_at)

lemma cursor_window:
  assumes "wf_windows desc st" and "cursor desc st"
  shows "get_window_idx desc (first_non_progressed_slot st)
    \<le> max_acceptable_slot st div slots_per_leader_window st + 1"
proof -
  have "first_non_progressed_slot st \<le> max_acceptable_slot st"
    using assms(2) by (auto simp: cursor_def max_acceptable_slot_def saturating_add_u32_def)
  then have "first_non_progressed_slot st div slots_per_leader_window st
      \<le> max_acceptable_slot st div slots_per_leader_window st"
    by (rule div_le_mono)
  then show ?thesis
    using wf_windows_spw [OF assms(1)]
    by (simp add: get_window_idx_def slot_window_index_def slots_per_window_def)
qed

text \<open>Window advancement finds the base it would panic without.\<close>

lemma advance_leader_window:
  assumes "chain desc st" and "cursor desc st" and "settled desc st"
    and "\<not> startup_replay_active st"
    and "current_leader_window_idx st \<le> get_window_idx desc (first_non_progressed_slot st)"
  shows "\<exists>st'. advance_leader_window_on_progress_cursor desc st = Some st' \<and> progress desc st'"
proof (cases "get_window_idx desc (first_non_progressed_slot st) \<le> current_leader_window_idx st")
  case True
  with assms show ?thesis
    by (simp add: advance_leader_window_on_progress_cursor_def Let_def progress_def)
next
  case False
  let ?n = "first_non_progressed_slot st" and ?w = "get_window_idx desc (first_non_progressed_slot st)"
  let ?e = "ensure_window_exists ?w BoundedByHorizon st"
  have wf: "wf_windows desc st" using assms(1) by (simp add: chain_def)
  have "has_window st ?w" using cursor_base [OF assms(1-3)] by (rule at_window)
  then have w: "has_window ?e ?w" by simp
  obtain b where b: "available_base (slot_view desc st ?n) = Some b"
    using cursor_base [OF assms(1-3)] by (auto simp: base_at_def)
  have "?n \<noteq> 0" using False by (intro notI) (simp add: get_window_idx_def slot_window_index_def)
  then have "get_progress_cursor_base_or_panic desc st = Some (b, ?e)"
    using assms(2) b w wf
    by (simp add: get_progress_cursor_base_or_panic_def get_slot_mut_view Let_def cursor_def)
  then have eq: "advance_leader_window_on_progress_cursor desc st =
      Some (enter_leader_window desc ?w b ?e)"
    using False assms(4) by (simp add: advance_leader_window_on_progress_cursor_def Let_def)
  have e: "keeps desc st ?e" using wf by (simp add: keeps.P_ensure)
  have "within_reach desc (?e\<lparr>current_leader_window_idx := ?w\<rparr>) = within_reach desc ?e"
    by (simp add: fun_eq_iff within_reach_def max_acceptable_slot_def max_future_slot_span_def)
  then have "progress desc (?e\<lparr>current_leader_window_idx := ?w\<rparr>)"
    using keeps_chain [OF e assms(1)] keeps_cursor [OF e] keeps_settled [OF e] assms(2-4)
    by (simp add: progress_def chain_def cursor_def settled_def)
  then have "progress desc (enter_leader_window desc ?w b ?e)"
    using keeps_wf [OF e] by (intro keeps_progress [OF enter_leader_window_keeps])
  with eq show ?thesis by blast
qed

section \<open>Notarisation\<close>

text \<open>A notarised slot hands its base on, and the cursor is moved up.\<close>

lemma mark_notarized:
  assumes "wf_windows desc st"
    and "leader_window_offset st * slots_per_window desc \<le> first_non_finalized_slot st"
    and "first_non_finalized_slot st \<le> s"
    and "alloc = VerifiedCertificate \<or>
         get_window_idx desc s \<le> max_acceptable_slot st div slots_per_leader_window st + 1"
  shows "notarized_at desc (put_slot desc s (\<lambda>x. x\<lparr>observed_notar_certificate := Some p\<rparr>)
      (ensure_window_exists (get_window_idx desc s) alloc st)) = (notarized_at desc st)(s := True)"
  using window_tracked [OF assms(2,1,3)] assms(1,4)
  by (auto simp: notarized_at_def fun_eq_iff slot_view_put_slot has_window_ensure)

lemma propagate_notarized:
  assumes wf: "wf_windows desc st"
    and off: "leader_window_offset st * slots_per_window desc \<le> first_non_finalized_slot st"
    and bnd: "boundaries (first_non_finalized_slot st) (skipped_at desc st) (skip_intervals st)"
    and "first_non_finalized_slot st \<le> cpi_slot p + 1"
    and reach: "within_reach desc st (cpi_slot p)"
      "\<And>t. cpi_slot p < t \<Longrightarrow> skipped_at desc st t \<Longrightarrow> within_reach desc st t"
  shows "\<exists>st'. keeps desc st st' \<and>
    base_at desc st' (next_open (skipped_at desc st) (cpi_slot p + 1)) \<and>
    propagate_base_after_notarization desc p st =
      check_pending_blocks desc (advance_progress_cursor desc st')"
proof -
  let ?t = "next_open (skipped_at desc st) (cpi_slot p + 1)"
  let ?st' = "modify_slot desc ?t BoundedByHorizon (add_available_base_max (Some p)) st"
  have "first_non_finalized_slot st \<le> ?t"
    using next_open(1) [OF bounded_skipped_at [OF wf], of "cpi_slot p + 1"] assms(4) by simp
  note g = grant_base [OF wf off this disjI2 [OF next_open_reach [OF wf reach]],
      of BoundedByHorizon "Some p"]
  have "find_next_nonskipped_slot desc (cpi_slot p) BoundedByHorizon st = (Some ?t, st)"
    using assms by (intro find_next_bounded [where sk = "skipped_at desc st"]) (auto simp: bounded_skipped_at)
  then have "propagate_base_after_notarization desc p st =
      check_pending_blocks desc (advance_progress_cursor desc ?st')"
    by (simp add: propagate_base_after_notarization_def Let_def)
  with g show ?thesis by (intro exI [of _ ?st'] conjI)
qed

lemma window_mono: "s \<le> t \<Longrightarrow> get_window_idx desc s \<le> get_window_idx desc t"
  by (simp add: get_window_idx_def window_index_mono)

lemma advance_leader_window_keeps:
  assumes "chain desc st" and "cursor desc st" and "\<not> startup_replay_active st"
    and "current_leader_window_idx st \<le> get_window_idx desc (first_non_progressed_slot st)"
    and "keeps desc (advance_progress_cursor desc st) st1"
  shows "\<exists>st'. advance_leader_window_on_progress_cursor desc st1 = Some st' \<and> progress desc st'"
proof (rule advance_leader_window)
  note a = advance_cursor [OF assms(1,2)]
  show "chain desc st1" using assms(5) a(1) by (rule keeps_chain)
  show "cursor desc st1" "settled desc st1"
    using a(2,3) keeps_cursor [OF assms(5)] keeps_settled [OF assms(5)] by simp_all
  show "\<not> startup_replay_active st1"
    using assms(3,5) by (simp add: keeps_def same_cursors_def)
  have "get_window_idx desc (first_non_progressed_slot st)
      \<le> get_window_idx desc (first_non_progressed_slot (advance_progress_cursor desc st))"
    by (rule window_mono) (rule advance_progress_cursor_ge)
  with assms(4,5) show "current_leader_window_idx st1 \<le> get_window_idx desc (first_non_progressed_slot st1)"
    by (simp add: keeps_def same_cursors_def)
qed

lemma notarized_progress:
  assumes "progress desc st" and "first_non_finalized_slot st \<le> s" and "within_reach desc st s"
  shows "\<exists>st'. advance_leader_window_on_progress_cursor desc
     (propagate_base_after_notarization desc \<lparr>cpi_slot = s, cpi_hash = h\<rparr>
       (put_slot desc s (\<lambda>x. x\<lparr>observed_notar_certificate := Some \<lparr>cpi_slot = s, cpi_hash = h\<rparr>\<rparr>)
         (ensure_window_exists (get_window_idx desc s) BoundedByHorizon st))) = Some st' \<and>
     progress desc st'"
proof -
  let ?p = "\<lparr>cpi_slot = s, cpi_hash = h\<rparr>"
  let ?e = "ensure_window_exists (get_window_idx desc s) BoundedByHorizon st"
  let ?st1 = "put_slot desc s (\<lambda>x. x\<lparr>observed_notar_certificate := Some ?p\<rparr>) ?e"
  have c: "chain desc st" and cu: "cursor desc st"
    using assms(1) by (simp_all add: progress_def)
  then have wf: "wf_windows desc st"
    and off: "leader_window_offset st * slots_per_window desc \<le> first_non_finalized_slot st"
    by (simp_all add: chain_def)
  have "get_window_idx desc s \<le> get_window_idx desc (s + 1)" by (rule window_mono) simp
  with assms(3) have nt: "notarized_at desc ?st1 = (notarized_at desc st)(s := True)"
    by (intro mark_notarized [OF wf off assms(2)]) (simp add: within_reach_def)
  have sk: "skipped_at desc ?st1 = skipped_at desc st" and bs: "base_at desc ?st1 = base_at desc st"
    using wf by (simp_all add: at_put_slot)
  have reach: "within_reach desc ?st1 = within_reach desc st"
    by (simp add: fun_eq_iff within_reach_def max_acceptable_slot_def max_future_slot_span_def)
  have all: "within_reach desc st t"
    if "first_non_finalized_slot st \<le> t" "skipped_at desc st t \<or> notarized_at desc st t" for t
    using c that by (auto simp: chain_def)
  obtain st2 where st2: "keeps desc ?st1 st2" "base_at desc st2 (next_open (skipped_at desc st) (s + 1))"
    "propagate_base_after_notarization desc ?p ?st1 =
       check_pending_blocks desc (advance_progress_cursor desc st2)"
    using propagate_notarized [of desc ?st1 ?p] wf off c assms(2,3) all
    by (auto simp: sk reach chain_def)
  have k: "wf_windows desc st2" "same_cursors st st2"
    "current_leader_window_idx st2 = current_leader_window_idx st"
    "skipped_at desc st2 = skipped_at desc st"
    "notarized_at desc st2 = (notarized_at desc st)(s := True)"
    "\<forall>t. base_at desc st t \<longrightarrow> base_at desc st2 t"
    using st2(1) by (simp_all add: keeps_def same_cursors_def sk nt bs)
  have "covered (first_non_finalized_slot st) (skipped_at desc st) ((notarized_at desc st)(s := True))
      (base_at desc st2)"
    using c k(6) st2(2) by (auto simp: chain_def intro: covered_notar covered_mono)
  then have "chain desc st2"
    using c k assms(3) by (auto simp: chain_def same_cursors_def within_reach_cong [OF k(2)])
  moreover have "cursor desc st2" using cu k by (simp add: cursor_def same_cursors_def)
  moreover have "\<not> startup_replay_active st2"
    "current_leader_window_idx st2 \<le> get_window_idx desc (first_non_progressed_slot st2)"
    using assms(1) k(2,3) by (simp_all add: progress_def same_cursors_def)
  moreover have "wf_windows desc (advance_progress_cursor desc st2)"
    using advance_cursor(1) [OF calculation(1,2)] by (simp add: chain_def)
  then have "keeps desc (advance_progress_cursor desc st2)
      (check_pending_blocks desc (advance_progress_cursor desc st2))"
    by (simp add: keeps.P_check_pending_blocks)
  ultimately show ?thesis
    unfolding st2(3) by (rule advance_leader_window_keeps)
qed

section \<open>Skip certificates\<close>

text \<open>\<open>st1\<close> is the machine right after slot \<open>s\<close> of \<open>st\<close> has been marked as skipped and the
  boundaries have been updated.\<close>

definition marked_skipped ::
  "session_description \<Rightarrow> slot_index \<Rightarrow> simplex_state \<Rightarrow> simplex_state \<Rightarrow> bool" where
  "marked_skipped desc s st st1 \<longleftrightarrow>
     wf_windows desc st1 \<and> same_cursors st (st1\<lparr>skip_intervals := skip_intervals st\<rparr>) \<and>
     current_leader_window_idx st1 = current_leader_window_idx st \<and>
     skipped_at desc st1 = (skipped_at desc st)(s := True) \<and>
     notarized_at desc st1 = notarized_at desc st \<and> base_at desc st1 = base_at desc st"

lemma marked_skipped_boundaries:
  assumes "marked_skipped desc s st st1" and "chain desc st" and "skip_intervals st1 = skip_intervals st"
    and "first_non_finalized_slot st \<le> s"
  shows "find_next_nonskipped_slot desc s BoundedByHorizon st1 =
      (Some (next_open (skipped_at desc st1) (s + 1)), st1)" (is ?A)
    and "boundaries (first_non_finalized_slot st) (skipped_at desc st1)
      (skip_intervals (update_skip_intervals_after_skip_cert s
        (next_open (skipped_at desc st1) (s + 1)) st1))" (is ?B)
proof -
  have b: "boundaries (first_non_finalized_slot st) (skipped_at desc st) (skip_intervals st)"
    and wf: "wf_windows desc st" "wf_windows desc st1"
    and F: "first_non_finalized_slot st1 = first_non_finalized_slot st"
    and sk: "skipped_at desc st1 = (skipped_at desc st)(s := True)"
    using assms(1,2) by (simp_all add: chain_def marked_skipped_def same_cursors_def)
  show ?A
    using wf b assms(3,4) F
    by (intro find_next_bounded [where sk = "skipped_at desc st"])
      (auto simp: bounded_skipped_at sk)
  have "next_open (skipped_at desc st1) (s + 1) = s + 1 \<longleftrightarrow> \<not> skipped_at desc st1 (s + 1)"
    using next_open(2) [OF bounded_skipped_at [OF wf(2)], of "s + 1"] next_open_here by metis
  then show ?B
    using boundaries_skip [OF b, of s]
    by (simp add: update_skip_intervals_after_skip_cert_def Let_def assms(3) sk [symmetric]
        if_distrib cong: if_cong split: if_splits)
qed

lemma marked_skipped_chain:
  assumes m: "marked_skipped desc s st st1" and p: "progress desc st"
    and s: "first_non_finalized_slot st \<le> s" "within_reach desc st s"
    and b: "boundaries (first_non_finalized_slot st) (skipped_at desc st1) (skip_intervals st1)"
    and k: "keeps desc st1 st2"
    and base: "base_at desc st s \<Longrightarrow> base_at desc st2 (next_open (skipped_at desc st1) (s + 1))"
  shows "chain desc st2" and "cursor desc st2"
proof -
  have c: "chain desc st" "cursor desc st" using p by (simp_all add: progress_def)
  have sk: "skipped_at desc st1 = (skipped_at desc st)(s := True)"
    using m by (simp add: marked_skipped_def)
  have mono: "\<forall>t. base_at desc st t \<longrightarrow> base_at desc st2 t"
    using m k by (simp add: marked_skipped_def keeps_def)
  have "covered (first_non_finalized_slot st) (skipped_at desc st1) (notarized_at desc st) (base_at desc st2)"
    unfolding sk using c(1) mono base [unfolded sk]
    by (intro covered_skip [where bs = "base_at desc st"]) (auto simp: chain_def bounded_skipped_at)
  moreover have "within_reach desc st2 = within_reach desc st"
    using m k
    by (simp add: fun_eq_iff within_reach_def marked_skipped_def keeps_def same_cursors_def
        max_acceptable_slot_def max_future_slot_span_def)
  ultimately show "chain desc st2"
    using c(1) m k b s
    by (auto simp: chain_def marked_skipped_def keeps_def same_cursors_def)
  show "cursor desc st2"
    using c(2) m k by (auto simp: cursor_def marked_skipped_def keeps_def same_cursors_def)
qed

lemma skipped_without_base:
  assumes m: "marked_skipped desc s st st1" and p: "progress desc st"
    and s: "first_non_finalized_slot st \<le> s" "within_reach desc st s"
    and b: "boundaries (first_non_finalized_slot st) (skipped_at desc st1) (skip_intervals st1)"
    and none: "\<not> base_at desc st s"
  shows "get_slot_available_base desc st1 s = None"
    and "progress desc (check_pending_blocks desc st1)"
proof -
  have wf: "wf_windows desc st1" and "\<not> base_at desc st1 s"
    using m none by (simp_all add: marked_skipped_def)
  then show "get_slot_available_base desc st1 s = None"
    by (simp add: get_slot_available_base_view base_at_def)
  have "s \<noteq> first_non_progressed_slot st"
    using cursor_base [of desc st] p none by (auto simp: progress_def)
  then have "settled desc st1"
    using p m by (simp add: progress_def settled_def marked_skipped_def same_cursors_def)
  moreover have "chain desc st1" "cursor desc st1"
    using marked_skipped_chain [OF m p s b, of st1] none wf by simp_all
  ultimately have "progress desc st1"
    using p m by (simp add: progress_def marked_skipped_def same_cursors_def)
  then show "progress desc (check_pending_blocks desc st1)"
    using wf by (intro keeps_progress [OF keeps.P_check_pending_blocks]) simp_all
qed

lemma skipped_with_base:
  assumes m: "marked_skipped desc s st st1" and p: "progress desc st"
    and s: "first_non_finalized_slot st \<le> s" "within_reach desc st s"
    and bnd: "boundaries (first_non_finalized_slot st) (skipped_at desc st1) (skip_intervals st1)"
    and base: "base_at desc st s"
  shows "\<exists>b st'. get_slot_available_base desc st1 s = Some b \<and>
    advance_leader_window_on_progress_cursor desc (check_pending_blocks desc
      (advance_progress_cursor desc (modify_slot desc (next_open (skipped_at desc st1) (s + 1))
        BoundedByHorizon (add_available_base_max b) st1))) = Some st' \<and> progress desc st'"
proof -
  let ?t = "next_open (skipped_at desc st1) (s + 1)"
  have wf: "wf_windows desc st1" and F: "first_non_finalized_slot st1 = first_non_finalized_slot st"
    and off: "leader_window_offset st1 * slots_per_window desc \<le> first_non_finalized_slot st1"
    and sk: "skipped_at desc st1 = (skipped_at desc st)(s := True)" and bs: "base_at desc st1 s"
    using m p base by (simp_all add: marked_skipped_def same_cursors_def progress_def chain_def)
  obtain b where b: "get_slot_available_base desc st1 s = Some b"
    using at_window(3) [OF bs] bs s(1) F by (auto simp: get_slot_available_base_view base_at_def)
  have reach: "within_reach desc st1 = within_reach desc st"
    using m by (simp add: fun_eq_iff within_reach_def marked_skipped_def same_cursors_def
        max_acceptable_slot_def max_future_slot_span_def)
  have t: "first_non_finalized_slot st1 \<le> ?t"
    using next_open(1) [OF bounded_skipped_at [OF wf], of "s + 1"] s(1) F by simp
  have w: "get_window_idx desc ?t \<le> max_acceptable_slot st1 div slots_per_leader_window st1 + 1"
  proof (rule next_open_reach [OF wf])
    fix t assume "s < t" "skipped_at desc st1 t"
    then show "within_reach desc st1 t"
      using p s(1) unfolding reach sk progress_def chain_def by auto
  qed (simp add: reach s(2))
  define st2 where "st2 = modify_slot desc ?t BoundedByHorizon (add_available_base_max b) st1"
  have g: "keeps desc st1 st2" "base_at desc st2 ?t"
    unfolding st2_def by (rule grant_base [OF wf off t disjI2 [OF w]])+
  have 2: "chain desc st2" "cursor desc st2"
    using marked_skipped_chain [OF m p s bnd g(1)] g(2) by simp_all
  have "wf_windows desc (advance_progress_cursor desc st2)"
    using advance_cursor(1) [OF 2] by (simp add: chain_def)
  then have "keeps desc (advance_progress_cursor desc st2)
      (check_pending_blocks desc (advance_progress_cursor desc st2))"
    by (simp add: keeps.P_check_pending_blocks)
  moreover have "\<not> startup_replay_active st2"
    "current_leader_window_idx st2 \<le> get_window_idx desc (first_non_progressed_slot st2)"
    using p m g(1) by (simp_all add: keeps_def same_cursors_def progress_def marked_skipped_def)
  ultimately have "\<exists>st'. advance_leader_window_on_progress_cursor desc
      (check_pending_blocks desc (advance_progress_cursor desc st2)) = Some st' \<and> progress desc st'"
    using 2 by (intro advance_leader_window_keeps)
  with b show ?thesis unfolding st2_def by blast
qed

lemma skipped_progress:
  assumes m: "marked_skipped desc s st
      (modify_slot desc s BoundedByHorizon (\<lambda>x. x\<lparr>skipped := True\<rparr>) st1)"
    and si: "skip_intervals st1 = skip_intervals st"
    and p: "progress desc st" and s: "first_non_finalized_slot st \<le> s" "within_reach desc st s"
  shows "\<exists>st'. progress_after_skip desc s st1 = Some st' \<and> progress desc st'"
proof -
  define st2 where "st2 = modify_slot desc s BoundedByHorizon (\<lambda>x. x\<lparr>skipped := True\<rparr>) st1"
  let ?t = "next_open (skipped_at desc st2) (s + 1)"
  define st3 where "st3 = update_skip_intervals_after_skip_cert s ?t st2"
  have si2: "skip_intervals st2 = skip_intervals st"
    using si by (simp add: st2_def modify_slot_eq)
  have "chain desc st" using p by (simp add: progress_def)
  note f = marked_skipped_boundaries [OF m [folded st2_def] this si2 s(1)]
  have sk: "skipped_at desc st3 = skipped_at desc st2"
    by (simp add: st3_def update_skip_intervals_after_skip_cert_def Let_def)
  have m3: "marked_skipped desc s st st3"
    using m [folded st2_def]
    by (simp add: st3_def marked_skipped_def same_cursors_def
        update_skip_intervals_after_skip_cert_def Let_def)
  have b3: "boundaries (first_non_finalized_slot st) (skipped_at desc st3) (skip_intervals st3)"
    using f(2) unfolding sk by (simp add: st3_def)
  have eq: "propagate_base_after_skip_cert desc s st1 =
    (case get_slot_available_base desc st3 s of
       None \<Rightarrow> (False, check_pending_blocks desc st3)
     | Some base \<Rightarrow> (True, check_pending_blocks desc (advance_progress_cursor desc
          (modify_slot desc ?t BoundedByHorizon (add_available_base_max base) st3))))"
    unfolding st3_def using f(1)
    by (simp add: propagate_base_after_skip_cert_def st2_def [symmetric] Let_def split: option.split)
  show ?thesis
    using skipped_without_base [OF m3 p s b3] skipped_with_base [OF m3 p s b3, unfolded sk]
    by (cases "base_at desc st s") (auto simp: progress_after_skip_def eq)
qed

section \<open>Finalisation\<close>

text \<open>\<open>st1\<close> is the machine \<open>st\<close> once the finalised boundary has passed slot \<open>s\<close> and the base
  behind it has been handed on.\<close>

definition finalized ::
  "session_description \<Rightarrow> slot_index \<Rightarrow> simplex_state \<Rightarrow> simplex_state \<Rightarrow> bool" where
  "finalized desc s st st1 \<longleftrightarrow>
     wf_windows desc st1 \<and> same_cursors (advance_finalized_boundary s st) st1 \<and>
     current_leader_window_idx st1 = current_leader_window_idx st \<and>
     skipped_at desc st1 = skipped_at desc st \<and>
     (\<forall>t > s. notarized_at desc st1 t = notarized_at desc st t) \<and>
     (\<forall>t. base_at desc st t \<longrightarrow> base_at desc st1 t) \<and>
     base_at desc st1 (next_open (skipped_at desc st) (s + 1))"

lemma advance_finalized_boundary_eq:
  "first_non_finalized_slot st \<le> s \<Longrightarrow>
   advance_finalized_boundary s st =
     st\<lparr>first_non_finalized_slot := s + 1,
        skip_intervals := dropWhile (\<lambda>x. x < s + 1) (skip_intervals st)\<rparr>"
  by (simp add: advance_finalized_boundary_def prune_skip_intervals_before_def)

lemma finalized_keeps: "finalized desc s st st1 \<Longrightarrow> keeps desc st1 st2 \<Longrightarrow> finalized desc s st st2"
  by (auto simp: finalized_def keeps_def same_cursors_def)

lemma finalized_chain:
  assumes "finalized desc s st st1" and "chain desc st" and "first_non_finalized_slot st \<le> s"
  shows "chain desc st1"
proof -
  have c: "wf_windows desc st1" "leader_window_offset st1 = leader_window_offset st"
    "first_non_finalized_slot st1 = s + 1" "skipped_at desc st1 = skipped_at desc st"
    "skip_intervals st1 = dropWhile (\<lambda>x. x < s + 1) (skip_intervals st)"
    using assms(1) by (simp_all add: finalized_def same_cursors_def
        advance_finalized_boundary_eq [OF assms(3)])
  have "boundaries (s + 1) (skipped_at desc st) (dropWhile (\<lambda>x. x < s + 1) (skip_intervals st))"
    using assms(2,3)
    by (intro boundaries_prune [of "first_non_finalized_slot st"]) (simp_all add: chain_def)
  moreover have "covered (s + 1) (skipped_at desc st) (notarized_at desc st1) (base_at desc st1)"
    using assms by (auto simp: chain_def covered_def finalized_def)
  moreover have "within_reach desc st1 = within_reach desc st"
    using assms(1)
    by (simp add: finalized_def fun_eq_iff within_reach_def same_cursors_def
        advance_finalized_boundary_eq [OF assms(3)] max_acceptable_slot_def max_future_slot_span_def)
  ultimately show ?thesis
    using assms by (simp add: chain_def c) (simp add: finalized_def Suc_le_eq)
qed

lemma finalized_progress:
  assumes f: "finalized desc s st st1" and p: "progress desc st"
    and s: "first_non_finalized_slot st \<le> s" "s < u32_max"
  shows "\<exists>st'. advance_present desc (first_non_progressed_slot st \<le> s) s st1 = Some st' \<and> progress desc st'"
proof -
  have c: "chain desc st1" using f p s(1) by (simp add: finalized_chain progress_def)
  have k: "first_non_finalized_slot st1 = s + 1" "\<not> startup_replay_active st1"
    "first_non_progressed_slot st1 = first_non_progressed_slot st"
    "current_leader_window_idx st1 = get_window_idx desc (first_non_progressed_slot st)"
    using f p by (simp_all add: finalized_def progress_def same_cursors_def
        advance_finalized_boundary_eq [OF s(1)])
  show ?thesis
  proof (cases "first_non_progressed_slot st \<le> s")
    case False
    then have "cursor desc st1" "settled desc st1"
      using f p s(1) k
      by (auto simp: finalized_def progress_def cursor_def settled_def)
    with False k c show ?thesis by (simp add: advance_present_def progress_def)
  next
    case True
    let ?j = "st1\<lparr>first_non_progressed_slot := s + 1\<rparr>"
    have eq: "maybe_jump_progress_cursor_after_finalization s st1 = ?j"
      using True k by (simp add: maybe_jump_progress_cursor_after_finalization_def)
    have j: "chain desc ?j" "cursor desc ?j"
      using c k s(2) True by (auto intro: chain_cursor simp: cursor_def)
    have "wf_windows desc (advance_progress_cursor desc ?j)"
      using advance_cursor(1) [OF j] by (simp add: chain_def)
    moreover have "get_window_idx desc (first_non_progressed_slot st) \<le> get_window_idx desc (s + 1)"
      using True by (intro window_mono) simp
    ultimately show ?thesis
      using True k unfolding advance_present_def eq
      by (simp only: if_True) (intro advance_leader_window_keeps [OF j]; simp)
  qed
qed

text \<open>Finalisation by votes: the boundary moves first and the base is handed on afterwards.\<close>

lemma finalized_by_votes:
  assumes p: "progress desc st" and s: "first_non_finalized_slot st \<le> s" "within_reach desc st s"
  shows "finalized desc s st
    (record_missing_notarization desc s h (advance_finalized_boundary s st))"
proof -
  let ?p = "\<lparr>cpi_slot = s, cpi_hash = h\<rparr>"
  define b where "b = advance_finalized_boundary s st"
  note b = b_def [unfolded advance_finalized_boundary_eq [OF s(1)]]
  have c: "chain desc st" "settled desc st" using p by (simp_all add: progress_def)
  have eq: "record_missing_notarization desc s h b = propagate_base_after_notarization desc ?p b"
    by (simp add: b record_missing_notarization_def get_slot_ref_def modify_slot_eq Let_def)
  have at: "skipped_at desc b = skipped_at desc st" "notarized_at desc b = notarized_at desc st"
    "base_at desc b = base_at desc st" "first_non_finalized_slot b = s + 1"
    "leader_window_offset b = leader_window_offset st" "wf_windows desc b"
    using c(1) by (simp_all add: b chain_def)
  have reach: "within_reach desc b = within_reach desc st"
    by (simp add: b fun_eq_iff within_reach_def max_acceptable_slot_def max_future_slot_span_def)
  have bnd: "boundaries (s + 1) (skipped_at desc st) (skip_intervals b)"
    using boundaries_prune [of "first_non_finalized_slot st" "skipped_at desc st" "skip_intervals st" "s + 1"]
      c(1) s(1) by (simp add: b chain_def)
  obtain st2 where st2: "keeps desc b st2" "base_at desc st2 (next_open (skipped_at desc st) (s + 1))"
    "propagate_base_after_notarization desc ?p b =
       check_pending_blocks desc (advance_progress_cursor desc st2)"
    using propagate_notarized [of desc b ?p] bnd c(1) s by (auto simp: at reach chain_def)
  have "\<not> is_slot_progressed desc st2 (first_non_progressed_slot st2)"
    using c(2) st2(1) at by (simp add: settled_def keeps_def same_cursors_def progressed_at b)
  then have "record_missing_notarization desc s h b = check_pending_blocks desc st2"
    using st2(3) eq by (simp add: advance_cursor_stays)
  moreover have "finalized desc s st st2"
    using st2(1,2) at
    by (simp add: finalized_def keeps_def b_def [symmetric]) (simp add: b)
  then have "finalized desc s st (check_pending_blocks desc st2)"
    by (rule finalized_keeps) (simp add: keeps.P_check_pending_blocks keeps_wf [OF st2(1)])
  ultimately show ?thesis unfolding b_def by simp
qed

text \<open>Finalisation by a certificate: its windows are allocated without a bound, the base is
  handed on and then the boundary moves.\<close>

lemma finalized_by_certificate:
  assumes c: "chain desc st" and s: "first_non_finalized_slot st \<le> cpi_slot p"
  shows "finalized desc (cpi_slot p) st (advance_finalized_boundary (cpi_slot p)
    (apply_final_cert_parent_chain_for_verified_certificate desc p st))"
proof -
  let ?s = "cpi_slot p"
  let ?e = "ensure_window_exists (get_window_idx desc ?s) VerifiedCertificate st"
  define m where "m = (if observed_notar_certificate (slot_view desc st ?s) = None
    then put_slot desc ?s (\<lambda>x. x\<lparr>observed_notar_certificate := Some p\<rparr>) ?e else ?e)"
  have wf: "wf_windows desc st"
    and bnd: "boundaries (first_non_finalized_slot st) (skipped_at desc st) (skip_intervals st)"
    and off: "leader_window_offset st * slots_per_window desc \<le> first_non_finalized_slot st"
    using c by (simp_all add: chain_def)
  have w: "has_window ?e (get_window_idx desc ?s)"
    using window_tracked [OF off wf s] by (simp add: has_window_ensure)
  have m: "wf_windows desc m" "same_cursors st m" "skipped_at desc m = skipped_at desc st"
    "base_at desc m = base_at desc st" "current_leader_window_idx m = current_leader_window_idx st"
    "\<forall>t. t \<noteq> ?s \<longrightarrow> notarized_at desc m t = notarized_at desc st t"
    using wf by (auto simp: m_def same_cursors_def at_put_slot notarized_at_def slot_view_put_slot)
  obtain st3 where st3: "find_next_nonskipped_slot desc ?s VerifiedCertificate m =
      (Some (next_open (skipped_at desc st) (?s + 1)), st3)" "keeps desc m st3"
    using find_next_verified [of desc m ?s] m(1-3) off bnd s by (auto simp: same_cursors_def)
  let ?t = "next_open (skipped_at desc st) (?s + 1)"
  define st4 where "st4 = modify_slot desc ?t VerifiedCertificate (add_available_base_max (Some p)) st3"
  have "?s + 1 \<le> ?t" using next_open(1) [OF bounded_skipped_at [OF wf]] .
  then have "wf_windows desc st3" "first_non_finalized_slot st3 \<le> ?t"
    "leader_window_offset st3 * slots_per_window desc \<le> first_non_finalized_slot st3"
    using st3(2) m(2) off s by (simp_all add: keeps_def same_cursors_def)
  then have g: "keeps desc st3 st4" "base_at desc st4 ?t"
    unfolding st4_def by (simp_all add: grant_base)
  define st5 where "st5 = check_pending_blocks desc st4"
  have eq: "apply_final_cert_parent_chain_for_verified_certificate desc p st = st5"
    using st3(1) s w wf
    by (simp add: apply_final_cert_parent_chain_for_verified_certificate_def get_slot_mut_view Let_def
        m_def st4_def st5_def)
  have 5: "keeps desc st4 st5"
    using keeps_wf [OF g(1)] by (simp add: st5_def keeps.P_check_pending_blocks)
  have k: "keeps desc m st5"
    using st3(2) g(1) 5 by (intro keeps_trans [of desc m st3 st5] keeps_trans [of desc st3 st4 st5])
  have "base_at desc st5 ?t" using 5 g(2) by (simp add: keeps_def)
  with k show ?thesis
    using m s unfolding eq
    by (simp add: finalized_def keeps_def same_cursors_def advance_finalized_boundary_eq)
qed

end
