(* ===== verification/Simplex_Live.thy ===== *)
theory Simplex_Live
  imports Simplex_Progress Simplex_Agreement
begin

text \<open>
  No live operation panics and the timeout loop ends.  Besides the chain invariant this
  takes the skip timer (its slot is never below the window it was armed in) and the vote
  accounting (at most one block per slot has a quorum of recorded votes).  The cursors only
  move forward, so what was within reach stays so.
\<close>

section \<open>Cursors only move forward\<close>

definition ahead :: "session_description \<Rightarrow> simplex_state \<Rightarrow> simplex_state \<Rightarrow> bool" where
  "ahead desc st0 st \<longleftrightarrow>
     wf_windows desc st \<and>
     first_non_finalized_slot st0 \<le> first_non_finalized_slot st \<and>
     first_non_progressed_slot st0 \<le> first_non_progressed_slot st \<and>
     current_leader_window_idx st0 \<le> current_leader_window_idx st \<and>
     max_leader_window_desync st = max_leader_window_desync st0 \<and>
     slots_per_leader_window st = slots_per_leader_window st0"

interpretation ahead: machine_stable desc "ahead desc st0" auth False
  by unfold_locales (auto simp: ahead_def state_defs)

lemma ahead_refl [simp]: "ahead desc st st = wf_windows desc st"
  by (simp add: ahead_def)

lemma ahead_reach: "ahead desc st0 st \<Longrightarrow> within_reach desc st0 s \<Longrightarrow> within_reach desc st s"
  by (rule within_reach_mono [of desc st0]) (simp_all add: ahead_def)

section \<open>The skip timer\<close>

definition timer :: "session_description \<Rightarrow> simplex_state \<Rightarrow> bool" where
  "timer desc st \<longleftrightarrow>
     wf_windows desc st \<and> 0 < target_rate (options desc) \<and> 0 < target_rate_timeout st \<and>
     (timeout_base st \<noteq> None \<longrightarrow>
        current_leader_window_idx st * slots_per_leader_window st \<le> skip_slot st)"

lemma timer_cleanup: "timer desc st \<Longrightarrow> timer desc (cleanup_slots u st)"
  by (simp add: timer_def)

interpretation timer: machine_stable desc "timer desc" auth False
  by unfold_locales (auto simp: timer_def state_defs)

lemma advance_skip_timer_total:
  assumes "timer desc st"
  shows "\<exists>st'. advance_skip_timer s st = Some st'"
  using assms
  by (auto simp: advance_skip_timer_def timer_def Let_def checked_sub_def window_start_def
      first_slot_def split: option.split)

lemma advance_skip_timer_keeps:
  assumes "keeps desc st0 st" and "advance_skip_timer s st = Some st'"
  shows "keeps desc st0 st'"
  using assms
  by (auto simp: advance_skip_timer_def Let_def intro!: keeps.P_skip_timer
      elim!: bind_eq_SomeE split: if_splits option.splits)

text \<open>Each iteration of the timeout loop moves the local timestamp by a positive amount,
  so the loop passes the clock.\<close>

lemma process_timeouts_total:
  assumes "timer desc st"
  shows "\<exists>st'. process_timeouts desc st = Some st'"
proof (cases "skip_timestamp st")
  case None
  then show ?thesis by (simp add: process_timeouts_def)
next
  case (Some ts)
  let ?P = "\<lambda>(ts, st, go). timer desc st"
  let ?m = "\<lambda>(ts, st, go). (if go then Suc (get_time desc) - ts else 0)"
  have "\<exists>r. while_option (timeouts_pending desc) (timeout_iteration desc) (ts, st, True) = Some r"
  proof (rule measure_while_option_Some [where P = ?P and f = ?m])
    fix l assume "?P l" "timeouts_pending desc l"
    obtain ts st go where l: "l = (ts, st, go)" by (cases l)
    obtain ts' st' go' where i: "timeout_iteration desc l = (ts', st', go')" by (metis prod_cases3)
    have "timer desc st'"
      using \<open>?P l\<close> i l by (auto intro: timer.P_timeout_iteration)
    moreover have "ts' = ts + target_rate_timeout st"
      using i l by (auto simp: timeout_iteration_def Let_def split: if_splits option.splits)
    moreover have "go" "ts \<le> get_time desc"
      using \<open>timeouts_pending desc l\<close> l by (auto simp: timeouts_pending_def is_in_future_def not_less)
    moreover have "0 < target_rate_timeout st" using \<open>?P l\<close> l by (simp add: timer_def)
    ultimately show "?P (timeout_iteration desc l) \<and> ?m (timeout_iteration desc l) < ?m l"
      unfolding i by (auto simp: l intro!: diff_less_mono2)
  qed (simp add: assms)
  with Some show ?thesis by (auto simp: process_timeouts_def)
qed

section \<open>The live machine\<close>

text \<open>With no demand on signatures the accounting does not depend on the authority.\<close>

abbreviation no_authority :: authority where
  "no_authority \<equiv> (\<lambda>_ _ _. True)"

definition live :: "session_description \<Rightarrow> simplex_state \<Rightarrow> bool" where
  "live desc st \<longleftrightarrow>
     wf_desc desc \<and> 0 < total_weight desc \<and> progress desc st \<and> timer desc st \<and>
     accounting desc no_authority False st"

lemma live_wf: "live desc st \<Longrightarrow> wf_windows desc st"
  by (simp add: live_def timer_def)

text \<open>An operation that keeps the chain, the timer and the accounting keeps the machine
  live.\<close>

lemma liveI:
  assumes "live desc st" and "progress desc st'" and "timer desc st \<Longrightarrow> timer desc st'"
    and "accounting desc no_authority False st \<Longrightarrow> accounting desc no_authority False st'"
  shows "live desc st'"
  using assms by (simp add: live_def)

lemma keeps_votes: "wf_windows desc st \<Longrightarrow> keeps desc st (put_slot_votes s sv st)"
  by (rule keeps_view [of desc st st]) (simp_all add: same_cursors_def)

lemma keeps_event: "keeps desc st0 st \<Longrightarrow> keeps desc st0 (push_event_back e st)"
  by (frule keeps_wf, erule keeps_view) (simp_all add: same_cursors_def)

lemma on_block_notarized_live:
  assumes "live desc st" and "first_non_finalized_slot st \<le> s" and "within_reach desc st s"
  shows "\<exists>st'. on_block_notarized desc s h st = Some st' \<and> live desc st'"
proof -
  let ?p = "\<lparr>cpi_slot = s, cpi_hash = h\<rparr>"
  let ?st2 = "put_slot desc s (\<lambda>x. x\<lparr>observed_notar_certificate := Some ?p\<rparr>)
      (ensure_window_exists (get_window_idx desc s) BoundedByHorizon st)"
  have p: "progress desc st" and t: "timer desc st"
    using assms(1) by (simp_all add: live_def)
  obtain st4 where 4: "advance_leader_window_on_progress_cursor desc
      (propagate_base_after_notarization desc ?p ?st2) = Some st4" "progress desc st4"
    using notarized_progress [OF p assms(2,3)] by blast
  have "timer desc ?st2" using t by (intro timer.P_notar timer.P_ensure) simp_all
  then have t4: "timer desc st4"
    by (rule timer.P_advance_leader_window [OF timer.P_propagate_notar 4(1)])
  obtain st5 where 5: "advance_skip_timer s st4 = Some st5"
    using advance_skip_timer_total [OF t4] by blast
  have eq: "on_block_notarized desc s h st = Some (try_final desc s h st5)"
    using 4(1) 5 assms(2) by (simp add: on_block_notarized_def put_slot_def Let_def)
  have "keeps desc st4 st5"
    using t4 by (intro advance_skip_timer_keeps [OF _ 5]) (simp add: timer_def)
  then have "progress desc (try_final desc s h st5)"
    by (intro keeps_progress [OF keeps.P_try_final 4(2)])
  then have "live desc (try_final desc s h st5)"
    using eq by (intro liveI [OF assms(1)] timer.P_on_block_notarized [OF _ eq]
        acc.P_on_block_notarized [OF _ eq])
  with eq show ?thesis by blast
qed

text \<open>Votes within the horizon are within reach.\<close>

lemma horizon_reach:
  assumes "wf_windows desc st" and "s < first_too_new_vote_slot st"
  shows "within_reach desc st s"
proof -
  let ?w = "slots_per_leader_window st" and ?n = "first_non_progressed_slot st"
  let ?d = "max_leader_window_desync st"
  have pos: "0 < ?w" using assms(1) by (simp add: wf_windows_def)
  have "min (min (?n div ?w + ?d) u32_max + 1) u32_max * ?w \<le> (?n div ?w + ?d + 1) * ?w"
    by (rule mult_le_mono1) simp
  then have s: "s < (?n div ?w + ?d + 1) * ?w" "s < u32_max"
    using assms(2)
    by (simp_all add: first_too_new_vote_slot_def saturating_add_u32_def saturating_mul_u32_def Let_def)
  have "(s + 1) div ?w \<le> max_acceptable_slot st div ?w + 1"
  proof (cases "max_acceptable_slot st = u32_max")
    case True
    with s(2) have "(s + 1) div ?w \<le> max_acceptable_slot st div ?w" by (intro div_le_mono) simp
    then show ?thesis by simp
  next
    case False
    then have "max_acceptable_slot st = ?n + ?d * ?w"
      by (auto simp: max_acceptable_slot_def max_future_slot_span_def saturating_add_u32_def
          saturating_mul_u32_def min_def split: if_splits)
    then have "max_acceptable_slot st div ?w = ?n div ?w + ?d" using pos by simp
    moreover have "(s + 1) div ?w \<le> ((?n div ?w + ?d + 1) * ?w) div ?w"
      using s(1) by (intro div_le_mono) simp
    ultimately show ?thesis using pos by simp
  qed
  then show ?thesis
    using s(2) wf_windows_spw [OF assms(1)]
    by (simp add: within_reach_def get_window_idx_def slot_window_index_def slots_per_window_def)
qed

section \<open>Thresholds\<close>

text \<open>A block that has a quorum of recorded votes is the only one.\<close>

lemma unique_notarized:
  assumes "live desc st" and "hm_get (simplex_state.slot_votes st) s = Some sv"
    and "(h, w) \<in> set (notarize_weight_by_block sv)" "get_threshold_66 desc \<le> w"
    and "(h', w') \<in> set (notarize_weight_by_block sv)" "get_threshold_66 desc \<le> w'"
  shows "h = h'"
proof -
  have wf: "wf_slot_votes desc no_authority False s sv"
    using assms(1,2) by (simp add: live_def accounting_def)
  then have inv: "hm_invar (notarize_weight_by_block sv)"
    and ex: "\<And>h. hm_weight (notarize_weight_by_block sv) h = vote_weight desc (notarized_for h) (votes sv)"
    by (simp_all add: wf_slot_votes_def exact_weights_def)
  have "get_threshold_66 desc \<le> vote_weight desc (notarized_for g) (votes sv)"
    if "(g, u) \<in> set (notarize_weight_by_block sv)" "get_threshold_66 desc \<le> u" for g u
    using that ex [of g] hm_weight_mem [OF inv that(1)] by simp
  then have "voters (notarized_for h) (votes sv) \<inter> voters (notarized_for h') (votes sv) \<noteq> {}"
    using assms wf by (intro unique_quorum [of desc]) (auto simp: live_def wf_slot_votes_def)
  then show ?thesis using voters_disjoint(1) by blast
qed

definition notar_settled :: "session_description \<Rightarrow> slot_votes \<Rightarrow> bool" where
  "notar_settled desc sv \<longleftrightarrow>
     (\<forall>c. notarize_certificate sv = Some c \<longrightarrow>
        (\<exists>w. (nv_block_hash (cert_vote c), w) \<in> set (notarize_weight_by_block sv) \<and>
             get_threshold_66 desc \<le> w))"

lemma live_votes:
  assumes "live desc st" and "sv_step desc no_authority False s (slot_votes_at s st) sv"
  shows "live desc (put_slot_votes s sv st)"
  using assms(1) keeps_votes [OF live_wf [OF assms(1)]] assms(2)
  by (intro liveI [OF assms(1)] keeps_progress [OF keeps_votes] timer.P_votes acc.P_votes)
    (auto simp: live_def timer_def)

lemma live_event:
  assumes "live desc st"
  shows "live desc (push_event_back e st)"
proof (rule liveI [OF assms])
  have "keeps desc st (push_event_back e st)" using live_wf [OF assms] by (simp add: keeps_event)
  then show "progress desc (push_event_back e st)"
    using assms by (auto simp: live_def intro: keeps_progress)
qed (simp_all add: timer_def accounting_def)

text \<open>The machine while the thresholds of slot \<open>s\<close> are examined; \<open>sv\<close> is the accounting the
  examination started from.\<close>

definition ready :: "session_description \<Rightarrow> slot_index \<Rightarrow> slot_votes \<Rightarrow> simplex_state \<Rightarrow> bool" where
  "ready desc s sv st \<longleftrightarrow>
     live desc st \<and> first_non_finalized_slot st \<le> s \<and> within_reach desc st s \<and>
     (\<exists>sv'. hm_get (simplex_state.slot_votes st) s = Some sv' \<and> same_tally sv sv' \<and>
        finalize_certificate sv' = finalize_certificate sv \<and>
        (block_notarized_published sv \<or> notar_settled desc sv'))"

lemma notarize_reached_ready:
  assumes "ready desc s sv st" and "\<not> block_notarized_published sv"
    and "(h, w) \<in> set (notarize_weight_by_block sv)" and thr: "get_threshold_66 desc \<le> w"
  shows "\<exists>st'. notarize_reached desc s h st = Some st' \<and> ready desc s sv st'"
proof -
  obtain sv1 where l: "live desc st" and F: "first_non_finalized_slot st \<le> s"
    and reach: "within_reach desc st s" and sv1: "hm_get (simplex_state.slot_votes st) s = Some sv1"
    and tally: "same_tally sv sv1" and fc: "finalize_certificate sv1 = finalize_certificate sv"
    and ns: "notar_settled desc sv1"
    using assms(1,2) by (auto simp: ready_def)
  have h: "(h, w) \<in> set (notarize_weight_by_block sv1)"
    using assms(3) tally by (simp add: same_tally_def)
  let ?c = "create_notarize_cert sv1 s h"
  have "nv_block_hash (cert_vote c) = h" if "notarize_certificate sv1 = Some c" for c
    using ns that unique_notarized [OF l sv1 _ _ h thr] by (auto simp: notar_settled_def)
  then obtain b sv2 where store: "store_notarize_certificate h ?c
      (sv1\<lparr>block_notarized_published := True\<rparr>) = (Inr b, sv2)"
    by (cases "notarize_certificate sv1") (auto simp: store_notarize_certificate_def)
  have "notar_settled desc sv2"
    using ns store h thr
    by (auto simp: notar_settled_def store_notarize_certificate_def create_notarize_cert_def
        certificate_new_def intro!: exI [of _ w] split: option.splits if_splits)
  moreover have "same_tally sv sv2" "finalize_certificate sv2 = finalize_certificate sv"
    using same_tally_trans [OF tally store_same_tally(1) [OF store]] store fc
    by (auto simp: store_notarize_certificate_def split: option.splits if_splits)
  moreover have "sv_step desc no_authority False s (slot_votes_at s st) sv2"
    using sv_notarize_reached [OF h thr store] by (simp add: slot_votes_at_get [OF sv1])
  from live_votes [OF l this] have l2: "live desc (put_slot_votes s sv2 st)" .
  define st2 where "st2 = (if b then push_event_back (NotarizationReached
      \<lparr>nre_slot = s, nre_block_hash = h, nre_certificate = ?c\<rparr>) (put_slot_votes s sv2 st)
    else put_slot_votes s sv2 st)"
  have eq: "notarize_reached desc s h st = on_block_notarized desc s h st2"
    by (cases b) (simp_all add: notarize_reached_def sv1 store st2_def Let_def)
  have st2: "live desc st2" "first_non_finalized_slot st2 \<le> s" "within_reach desc st2 s"
    "simplex_state.slot_votes st2 = simplex_state.slot_votes (put_slot_votes s sv2 st)"
    using l2 F reach
    by (auto simp: st2_def live_event within_reach_def max_acceptable_slot_def max_future_slot_span_def)
  obtain st' where st': "on_block_notarized desc s h st2 = Some st'" "live desc st'"
    using on_block_notarized_live [OF st2(1-3)] by blast
  have "same_accounting desc st2 st'"
    using live_wf [OF st2(1)] by (intro frame.P_on_block_notarized [OF _ st'(1)]) simp
  moreover have "ahead desc st2 st'"
    using live_wf [OF st2(1)] by (intro ahead.P_on_block_notarized [OF _ st'(1)]) simp
  moreover from this have "within_reach desc st' s" by (rule ahead_reach [OF _ st2(3)])
  ultimately have "ready desc s sv st'"
    using st2 st'(2) by (simp add: ready_def same_accounting_def)
  with eq st'(1) show ?thesis by simp
qed

lemma notarize_loop_ready:
  "ready desc s sv st \<Longrightarrow> set xs \<subseteq> set (notarize_weight_by_block sv) \<Longrightarrow>
   \<exists>st'. notarize_threshold_loop desc s (block_notarized_published sv) xs st = Some st' \<and>
     ready desc s sv st'"
proof (induction xs arbitrary: st)
  case (Cons x xs)
  obtain h w where x: "x = (h, w)" by fastforce
  show ?case
  proof (cases "\<not> block_notarized_published sv \<and> get_threshold_66 desc \<le> w")
    case True
    with Cons.prems x obtain st1 where "notarize_reached desc s h st = Some st1" "ready desc s sv st1"
      using notarize_reached_ready [of desc s sv st h w] by auto
    with True Cons.IH [of st1] Cons.prems(2) x show ?thesis by auto
  next
    case False
    with Cons.IH [OF Cons.prems(1)] Cons.prems(2) x show ?thesis by auto
  qed
qed simp

lemma emit_finalized_keeps:
  "wf_windows desc st \<Longrightarrow> keeps desc st (emit_finalized s h c b st)"
  by (simp add: emit_finalized_def Let_def keeps_event)

lemma finalize_reached_live:
  assumes "ready desc s sv st" and "finalize_certificate sv = None"
    and "(h, w) \<in> set (finalize_weight_by_block sv)" and "get_threshold_66 desc \<le> w"
  shows "\<exists>st'. finalize_reached desc s h st = Some (False, st') \<and> live desc st' \<and>
    s < first_non_finalized_slot st'"
proof -
  obtain sv1 where l: "live desc st" and F: "first_non_finalized_slot st \<le> s"
    and reach: "within_reach desc st s" and sv1: "hm_get (simplex_state.slot_votes st) s = Some sv1"
    and tally: "same_tally sv sv1" and fc: "finalize_certificate sv1 = None"
    using assms(1,2) by (auto simp: ready_def)
  let ?c = "create_finalize_cert sv1 s h"
  let ?sv2 = "sv1\<lparr>block_finalized_published := True, finalize_certificate := Some ?c\<rparr>"
  have store: "store_finalize_certificate h ?c (sv1\<lparr>block_finalized_published := True\<rparr>) = (Inr True, ?sv2)"
    using fc by (simp add: store_finalize_certificate_def)
  have "(h, w) \<in> set (finalize_weight_by_block sv1)"
    using assms(3) tally by (simp add: same_tally_def)
  from sv_finalize_reached [OF this assms(4) store]
  have l2: "live desc (put_slot_votes s ?sv2 st)"
    by (intro live_votes [OF l]) (simp add: slot_votes_at_get [OF sv1])
  define st1 where "st1 = emit_finalized s h ?c True (put_slot_votes s ?sv2 st)"
  have k: "keeps desc (put_slot_votes s ?sv2 st) st1"
    unfolding st1_def using live_wf [OF l2] by (rule emit_finalized_keeps)
  have p1: "progress desc st1" using keeps_progress [OF k] l2 by (simp add: live_def)
  have F1: "first_non_finalized_slot st1 \<le> s" "within_reach desc st1 s"
    using F reach within_reach_cong [of st st1 desc s] k
    by (simp_all add: keeps_def same_cursors_def)
  have "s < u32_max" using reach by (simp add: within_reach_def)
  from finalized_progress [OF finalized_by_votes [OF p1 F1] p1 F1(1) this]
  obtain st' where st': "advance_present desc (first_non_progressed_slot st1 \<le> s) s
      (record_missing_notarization desc s h (advance_finalized_boundary s st1)) = Some st'"
    "progress desc st'" by blast
  have eq: "finalize_reached desc s h st = Some (False, st')"
    using st'(1) F1(1)
    by (simp add: finalize_reached_def sv1 store st1_def [symmetric] Let_def
        advance_finalized_boundary_eq)
  have "live desc st'"
  proof (rule liveI [OF l st'(2)])
    show "timer desc st'" if "timer desc st"
      using timer.P_finalize_reached [OF that eq sv1] assms(3,4) tally by (simp add: same_tally_def)
    show "accounting desc no_authority False st'" if "accounting desc no_authority False st"
      using acc.P_finalize_reached [OF that eq sv1] assms(3,4) tally by (simp add: same_tally_def)
  qed
  moreover have "same_accounting desc (advance_finalized_boundary s st1) st'"
    using p1 by (intro same_accounting_finalization [OF st'(1)])
      (simp add: advance_finalized_boundary_eq [OF F1(1)] progress_def chain_def)
  ultimately show ?thesis
    using eq by (simp add: same_accounting_def advance_finalized_boundary_eq [OF F1(1)])
qed

lemma finalize_loop_live:
  "ready desc s sv st \<Longrightarrow> finalize_certificate sv = None \<Longrightarrow>
   set xs \<subseteq> set (finalize_weight_by_block sv) \<Longrightarrow>
   \<exists>st'. finalize_threshold_loop desc s xs st = Some (False, st') \<and>
     (ready desc s sv st' \<or> live desc st' \<and> s < first_non_finalized_slot st')"
proof (induction xs)
  case (Cons x xs)
  obtain h w where x: "x = (h, w)" by fastforce
  with Cons finalize_reached_live [of desc s sv st h w] show ?case
    by (cases "get_threshold_66 desc \<le> w") auto
qed simp

lemma mark_skipped:
  assumes "chain desc st" and "first_non_finalized_slot st \<le> s" and "within_reach desc st s"
    and k: "keeps desc st st1" and "base_at desc st1 = base_at desc st"
  shows "marked_skipped desc s st (modify_slot desc s BoundedByHorizon (\<lambda>x. x\<lparr>skipped := True\<rparr>) st1)"
proof -
  let ?e = "ensure_window_exists (get_window_idx desc s) BoundedByHorizon st1"
  have wf: "wf_windows desc st1" using k by (rule keeps_wf)
  have "get_window_idx desc s \<le> get_window_idx desc (s + 1)" by (rule window_mono) simp
  then have w: "has_window ?e (get_window_idx desc s)"
    using assms(1-3) k window_tracked [of st1 desc s]
    by (auto simp: has_window_ensure chain_def within_reach_def keeps_def same_cursors_def
        max_acceptable_slot_def max_future_slot_span_def)
  have "skipped_at desc (put_slot desc s (\<lambda>x. x\<lparr>skipped := True\<rparr>) ?e) = (skipped_at desc st)(s := True)"
    using wf w k by (auto simp: skipped_at_def fun_eq_iff slot_view_put_slot keeps_def)
  then show ?thesis
    using wf k assms(2,5)
    by (simp add: marked_skipped_def modify_slot_eq keeps_def same_cursors_def at_put_slot)
qed

lemma emit_skipped_keeps: "keeps desc st0 st \<Longrightarrow> keeps desc st0 (emit_skipped s c st)"
  by (auto simp: emit_skipped_def Let_def intro: keeps_event split: option.split)

lemma emit_skipped_base [simp]: "base_at desc (emit_skipped s c st) = base_at desc st"
  by (simp add: emit_skipped_def Let_def split: option.split)

lemma skip_reached_live:
  assumes "ready desc s sv st" and "get_threshold_66 desc \<le> skip_weight sv"
  shows "\<exists>st'. skip_reached desc s st = Some st' \<and> live desc st'"
proof -
  obtain sv1 where l: "live desc st" and F: "first_non_finalized_slot st \<le> s"
    and reach: "within_reach desc st s" and sv1: "hm_get (simplex_state.slot_votes st) s = Some sv1"
    and tally: "same_tally sv sv1"
    using assms(1) by (auto simp: ready_def)
  have thr: "get_threshold_66 desc \<le> skip_weight sv1"
    using assms(2) tally by (simp add: same_tally_def)
  obtain b sv2 where store: "store_skip_certificate (create_skip_cert sv1 s)
      (sv1\<lparr>slot_skipped_published := True\<rparr>) = (Inr b, sv2)"
    by (cases "skip_certificate sv1") (auto simp: store_skip_certificate_def)
  define st1 where "st1 = emit_skipped s (if b then Some (create_skip_cert sv1 s) else skip_certificate sv2)
      (put_slot_votes s sv2 st)"
  have p: "progress desc st" using l by (simp add: live_def)
  have k: "keeps desc st st1"
    unfolding st1_def using live_wf [OF l] by (intro emit_skipped_keeps keeps_votes)
  have "\<exists>st'. progress_after_skip desc s st1 = Some st' \<and> progress desc st'"
    using p F reach k
    by (intro skipped_progress [OF mark_skipped]) (auto simp: progress_def st1_def keeps_def same_cursors_def)
  then obtain st' where st': "progress_after_skip desc s st1 = Some st'" "progress desc st'" by blast
  then have eq: "skip_reached desc s st = Some st'"
    by (cases b) (simp_all add: skip_reached_def sv1 store st1_def Let_def)
  have "live desc st'"
    by (rule liveI [OF l st'(2)])
      (auto intro: timer.P_skip_reached [OF _ eq sv1 thr] acc.P_skip_reached [OF _ eq sv1 thr])
  with eq show ?thesis by blast
qed

lemma check_thresholds_live:
  assumes l: "live desc st" and "first_non_finalized_slot st \<le> s" and "within_reach desc st s"
  shows "\<exists>st'. check_thresholds_and_trigger desc s st = Some st' \<and> live desc st'"
proof -
  have inv: "check_invariants st"
    using l accounting_check_invariants by (auto simp: live_def)
  show ?thesis
  proof (cases "hm_get (simplex_state.slot_votes st) s")
    case None
    with inv l show ?thesis by (simp add: check_thresholds_and_trigger_def assert_opt_def)
  next
    case (Some sv)
    have wf: "wf_slot_votes desc no_authority False s sv"
      using l Some by (simp add: live_def accounting_def)
    then have "ready desc s sv st"
      using assms Some by (auto simp: ready_def notar_settled_def wf_slot_votes_def wf_certificates_def)
    then obtain st1 where 1: "notarize_threshold_loop desc s (block_notarized_published sv)
        (notarize_weight_by_block sv) st = Some st1" "ready desc s sv st1"
      using notarize_loop_ready [of desc s sv st "notarize_weight_by_block sv"] by auto
    have "\<exists>st2. (if \<not> block_finalized_published sv
        then finalize_threshold_loop desc s (finalize_weight_by_block sv) st1
        else Some (False, st1)) = Some (False, st2) \<and>
      (ready desc s sv st2 \<or> live desc st2 \<and> s < first_non_finalized_slot st2)"
      using finalize_loop_live [OF 1(2)] 1(2) wf by (auto simp: wf_slot_votes_def wf_certificates_def)
    then obtain st2 where 2: "(if \<not> block_finalized_published sv
        then finalize_threshold_loop desc s (finalize_weight_by_block sv) st1
        else Some (False, st1)) = Some (False, st2)"
      "ready desc s sv st2 \<or> live desc st2 \<and> s < first_non_finalized_slot st2" by blast
    have "live desc st2" using 2(2) by (auto simp: ready_def)
    then show ?thesis
      using inv Some 1 2 skip_reached_live [of desc s sv st2]
      by (auto simp: check_thresholds_and_trigger_def assert_opt_def)
  qed
qed

section \<open>Operations\<close>

lemma handle_vote_keeps:
  "wf_windows desc st \<Longrightarrow> keeps desc st (snd (handle_vote desc i v sig raw st))"
  by (cases v)
    (auto simp: handle_vote_def handle_notarize_vote_def handle_skip_vote_def
      handle_finalize_vote_def keeps_votes split: prod.split)

lemma on_vote_live:
  assumes "live desc st"
  shows "\<exists>r st'. on_vote desc i v sig raw st = Some (r, st') \<and> live desc st'"
proof -
  obtain r st1 where h: "handle_vote desc i v sig raw st = (r, st1)" by fastforce
  have k: "keeps desc st st1"
    using handle_vote_keeps [OF live_wf [OF assms], of i v sig raw] h by simp
  have l1: "live desc st1"
  proof (rule liveI [OF assms])
    show "progress desc st1" using assms keeps_progress [OF k] by (simp add: live_def)
    show "timer desc st1" if "timer desc st"
      using timer.P_handle_vote [OF that, of no_authority i v sig raw] h by simp
    show "accounting desc no_authority False st1" if "accounting desc no_authority False st"
      using acc.P_handle_vote [OF that, of i v sig raw] h by simp
  qed
  have "within_reach desc st1 (vote_slot v)" if "\<not> is_vote_slot_too_far_ahead st (vote_slot v)"
    using that horizon_reach [OF live_wf [OF assms], of "vote_slot v"]
      within_reach_cong [of st st1 desc "vote_slot v"] k
    by (simp add: is_vote_slot_too_far_ahead_def keeps_def)
  then show ?thesis
    using assms l1 check_thresholds_live [OF l1, of "vote_slot v"]
    by (auto simp: on_vote_def h Let_def)
qed

lemma set_notarize_certificate_live:
  assumes l: "live desc st" and hor: "first_non_finalized_slot st \<le> s \<Longrightarrow> s < first_too_new_vote_slot st"
  shows "\<exists>r st'. set_notarize_certificate desc s h c st = Some (r, st') \<and> live desc st'"
proof (cases "notarize_certificate (slot_votes_at s st)")
  case None
  let ?sv = "(absorb_notarize_signatures desc s h (cert_signatures c)
      ((slot_votes_at s st)\<lparr>notarize_certificate := Some c\<rparr>))\<lparr>block_notarized_published := True\<rparr>"
  let ?st1 = "push_event_back (NotarizationReached
      \<lparr>nre_slot = s, nre_block_hash = h, nre_certificate = c\<rparr>) (put_slot_votes s ?sv st)"
  have l0: "live desc (put_slot_votes s ?sv st)"
    by (rule live_votes [OF l]) (rule sv_notarize_cert [OF None _ refl], simp)
  then have l1: "live desc ?st1" by (rule live_event)
  have "within_reach desc ?st1 s" if "first_non_finalized_slot st \<le> s"
    using horizon_reach [OF live_wf [OF l] hor [OF that]] within_reach_cong [of st ?st1 desc s]
    by (simp add: same_cursors_def)
  then show ?thesis
    using l0 on_block_notarized_live [OF l1, of s h] None
    by (auto simp: set_notarize_certificate_def store_notarize_certificate_def Let_def)
next
  case (Some c')
  then show ?thesis
    using live_votes [OF l sv_same]
    by (auto simp: set_notarize_certificate_def store_notarize_certificate_def)
qed

lemma set_finalize_certificate_live:
  assumes l: "live desc st" and "s < u32_max"
  shows "\<exists>r st'. set_finalize_certificate desc s h c st = Some (r, st') \<and> live desc st'"
proof (cases "s < first_non_finalized_slot st \<or> finalize_certificate (slot_votes_at s st) \<noteq> None")
  case False
  then have None: "finalize_certificate (slot_votes_at s st) = None" by simp
  let ?sv = "(absorb_finalize_signatures desc s h (cert_signatures c)
      ((slot_votes_at s st)\<lparr>finalize_certificate := Some c\<rparr>))\<lparr>block_finalized_published := True\<rparr>"
  let ?p = "\<lparr>cpi_slot = s, cpi_hash = h\<rparr>"
  define st1 where "st1 = emit_finalized s h c True (put_slot_votes s ?sv st)"
  have k: "keeps desc st st1"
    unfolding st1_def using live_wf [OF l] keeps_votes
    by (intro keeps_trans [OF keeps_votes emit_finalized_keeps]) auto
  then have p1: "progress desc st1" using l by (auto simp: live_def intro: keeps_progress)
  have F1: "first_non_finalized_slot st1 \<le> s"
    using False k by (simp add: keeps_def same_cursors_def)
  have "finalized desc s st1 (advance_finalized_boundary s
      (apply_final_cert_parent_chain_for_verified_certificate desc ?p st1))"
    using finalized_by_certificate [of desc st1 ?p] p1 F1 by (simp add: progress_def)
  from finalized_progress [OF this p1 F1 assms(2)] obtain st' where
    st': "advance_present desc (first_non_progressed_slot st1 \<le> s) s (advance_finalized_boundary s
      (apply_final_cert_parent_chain_for_verified_certificate desc ?p st1)) = Some st'"
      "progress desc st'" by blast
  have eq: "set_finalize_certificate desc s h c st = Some (Inr True, st')"
    using st'(1) k None False
    by (simp add: set_finalize_certificate_def store_finalize_certificate_def Let_def
        st1_def [symmetric] keeps_def same_cursors_def)
  have "live desc st'"
    by (rule liveI [OF l st'(2)]) (auto intro: timer.P_set_finalize_certificate [OF _ eq]
        acc.P_set_finalize_certificate [OF _ eq])
  with eq show ?thesis by blast
next
  case True
  then show ?thesis
    using l live_votes [OF l sv_same]
    by (auto simp: set_finalize_certificate_def store_finalize_certificate_def)
qed

lemma marked_skipped_again:
  assumes "marked_skipped desc s st st1"
  shows "marked_skipped desc s st (modify_slot desc s BoundedByHorizon (\<lambda>x. x\<lparr>skipped := True\<rparr>) st1)"
proof -
  let ?e = "ensure_window_exists (get_window_idx desc s) BoundedByHorizon st1"
  have wf: "wf_windows desc st1" and "skipped_at desc st1 s"
    using assms by (simp_all add: marked_skipped_def)
  then have "skipped_at desc (put_slot desc s (\<lambda>x. x\<lparr>skipped := True\<rparr>) ?e) = skipped_at desc st1"
    by (auto simp: skipped_at_def fun_eq_iff slot_view_put_slot)
  then show ?thesis
    using assms wf by (simp add: marked_skipped_def modify_slot_eq same_cursors_def at_put_slot)
qed

lemma set_skip_certificate_live:
  assumes l: "live desc st" and hor: "first_non_finalized_slot st \<le> s \<Longrightarrow> s < first_too_new_vote_slot st"
  shows "\<exists>r st'. set_skip_certificate desc s c st = Some (r, st') \<and> live desc st'"
proof (cases "s < first_non_finalized_slot st \<or> skip_certificate (slot_votes_at s st) \<noteq> None")
  case False
  then have None: "skip_certificate (slot_votes_at s st) = None"
    and F: "first_non_finalized_slot st \<le> s" by simp_all
  let ?sv = "(absorb_skip_signatures desc s (cert_signatures c)
      ((slot_votes_at s st)\<lparr>skip_certificate := Some c\<rparr>))\<lparr>slot_skipped_published := True\<rparr>"
  define st1 where "st1 = put_slot_votes s ?sv st"
  define st3 where "st3 = modify_slot desc s BoundedByHorizon (\<lambda>x. x\<lparr>skipped := True\<rparr>) st1"
  have p: "progress desc st" using l by (simp add: live_def)
  have reach: "within_reach desc st s" using live_wf [OF l] hor [OF F] by (rule horizon_reach)
  have "marked_skipped desc s st st3"
    unfolding st3_def using p F reach live_wf [OF l]
    by (intro mark_skipped) (simp_all add: progress_def st1_def keeps_votes)
  then have "\<exists>st'. progress_after_skip desc s st3 = Some st' \<and> progress desc st'"
    using p F reach
    by (intro skipped_progress [OF marked_skipped_again])
      (simp_all add: st3_def st1_def modify_slot_eq)
  then obtain st4 where 4: "progress_after_skip desc s st3 = Some st4" "progress desc st4" by blast
  have "slots_per_leader_window st = opt_slots_per_leader_window (options desc)"
    using wf_windows_spw [OF live_wf [OF l]] by (simp add: slots_per_window_def)
  then have eq: "set_skip_certificate desc s c st = Some (Inr True, emit_skipped s (Some c) st4)"
    using 4(1) None F
    by (simp add: set_skip_certificate_def store_skip_certificate_def Let_def st3_def st1_def
        modify_slot_eq put_slot_def get_window_idx_def get_slot_offset_in_window_def)
  have "wf_windows desc st4" using 4(2) by (simp add: progress_def chain_def)
  then have "progress desc (emit_skipped s (Some c) st4)"
    using 4(2) by (intro keeps_progress [OF emit_skipped_keeps [of desc st4 st4]]) simp_all
  then have "live desc (emit_skipped s (Some c) st4)"
    by (rule liveI [OF l]) (auto intro: timer.P_set_skip_certificate [OF _ eq]
        acc.P_set_skip_certificate [OF _ eq])
  with eq show ?thesis by blast
next
  case True
  then show ?thesis
    using l live_votes [OF l sv_same]
    by (auto simp: set_skip_certificate_def store_skip_certificate_def)
qed

lemma cleanup_offset:
  assumes "wf_windows desc st"
    and "leader_window_offset st * slots_per_window desc \<le> first_non_finalized_slot st"
  shows "leader_window_offset (cleanup_slots u st) * slots_per_window desc \<le> first_non_finalized_slot st"
proof -
  obtain k where k: "leader_window_offset (cleanup_slots u st) = leader_window_offset st + k"
    "k \<le> length (leader_windows st)"
    "\<forall>i<k. lw_start_slot (leader_windows st ! i) + slots_per_leader_window st \<le> first_non_finalized_slot st"
    by (rule cleanup_slots_windows [of u st])
  show ?thesis
  proof (cases k)
    case (Suc i)
    then have "(leader_window_offset st + i) * slots_per_window desc + slots_per_window desc
        \<le> first_non_finalized_slot st"
      using k(2,3) assms(1) by (auto simp: wf_windows_def)
    then show ?thesis using k(1) Suc by (simp add: algebra_simps)
  qed (simp add: k(1) assms(2))
qed

lemma cleanup_live:
  assumes "live desc st"
  shows "live desc (cleanup_slots u st)"
proof (rule liveI [OF assms])
  let ?st = "cleanup_slots u st" and ?F = "first_non_finalized_slot st"
  have p: "progress desc st" using assms by (simp add: live_def)
  then have wf: "wf_windows desc st" and off: "leader_window_offset st * slots_per_window desc \<le> ?F"
    by (simp_all add: progress_def chain_def)
  note off' = cleanup_offset [OF wf off, of u]
  have "slot_view desc ?st s = slot_view desc st s" if "?F \<le> s" for s
    using window_tracked [of ?st desc s] off' wf that by (intro slot_view_cleanup) simp
  then have at: "skipped_at desc ?st s = skipped_at desc st s"
      "notarized_at desc ?st s = notarized_at desc st s" "base_at desc ?st s = base_at desc st s"
    if "?F \<le> s" for s
    using that by (simp_all add: at_defs)
  have "within_reach desc ?st = within_reach desc st"
    by (simp add: fun_eq_iff within_reach_def max_acceptable_slot_def max_future_slot_span_def)
  moreover have "boundaries ?F (skipped_at desc ?st) (skip_intervals st) =
      boundaries ?F (skipped_at desc st) (skip_intervals st)"
    using at(1) by (rule boundaries_cong)
  moreover have "covered ?F (skipped_at desc ?st) (notarized_at desc ?st) (base_at desc ?st) =
      covered ?F (skipped_at desc st) (notarized_at desc st) (base_at desc st)"
    using bounded_skipped_at [OF wf] at by (rule covered_cong)
  ultimately have "chain desc ?st"
    using p off' by (simp add: progress_def chain_def at)
  then show "progress desc ?st"
    using p by (auto simp: progress_def cursor_def settled_def at)
qed (simp_all add: timer.P_cleanup acc.P_cleanup)

lemma live_keeps:
  assumes "live desc st" and "keeps desc st st'" and "timer desc st \<Longrightarrow> timer desc st'"
    and "accounting desc no_authority False st \<Longrightarrow> accounting desc no_authority False st'"
  shows "live desc st'"
  using assms(1,2) by (intro liveI [OF assms(1) _ assms(3,4)] keeps_progress [OF assms(2)])
    (simp_all add: live_def)

lemma live_events: "live desc st \<Longrightarrow> live desc (st\<lparr>events := xs\<rparr>)"
  by (frule live_wf, erule live_keeps, rule keeps_view [of desc st st])
    (simp_all add: same_cursors_def timer_def accounting_def)

lemma check_all_live:
  assumes "live desc st"
  shows "\<exists>st'. check_all desc st = Some st' \<and> live desc st'"
proof -
  have t: "timer desc st" and a: "accounting desc no_authority False st"
    using assms by (simp_all add: live_def)
  obtain st' where st': "process_timeouts desc st = Some st'"
    using process_timeouts_total [OF t] by blast
  have "keeps desc st st'"
    using live_wf [OF assms] by (intro keeps.P_process_timeouts [OF _ st']) simp
  then have "live desc st'"
    using assms timer.P_process_timeouts [OF t st'] acc.P_process_timeouts [OF a st']
    by (auto simp: live_def intro: keeps_progress)
  with st' accounting_check_invariants [OF a] show ?thesis
    by (simp add: check_all_def assert_opt_def)
qed

lemma on_candidate_live: "live desc st \<Longrightarrow> live desc (snd (on_candidate desc c st))"
proof -
  assume l: "live desc st"
  have "keeps desc st (snd (on_candidate desc c st))"
    using live_wf [OF l] by (intro keeps.P_on_candidate) simp
  then show ?thesis
    using l by (auto simp: live_def intro: keeps_progress timer.P_on_candidate acc.P_on_candidate)
qed

lemma reset_timeouts_live: "live desc st \<Longrightarrow> live desc (reset_timeouts_on_start desc st)"
proof -
  assume l: "live desc st"
  have k: "keeps desc st (reset_timeouts_on_start desc st)"
    by (rule keeps_view [of desc st st])
      (simp_all add: live_wf [OF l] reset_timeouts_on_start_def state_defs same_cursors_def)
  have eq: "fsm_step desc ResetTimeoutsOnStart st = Some ([], reset_timeouts_on_start desc st)"
    by (simp add: fsm_step_def)
  show ?thesis
    by (rule live_keeps [OF l k])
      (auto intro: timer.P_fsm_step [OF _ eq] acc.P_fsm_step [OF _ eq])
qed

section \<open>Runs\<close>

text \<open>The condition on certificates from outside: a notarisation or skip certificate of a
  tracked slot stays within the horizon votes are held to, and the successor of a finalised
  slot is a slot number.\<close>

definition within_horizon :: "simplex_state \<Rightarrow> fsm_op \<Rightarrow> bool" where
  "within_horizon st op =
    (case op of
       SetNotarizeCertificate s h c \<Rightarrow> s < first_non_finalized_slot st \<or> s < first_too_new_vote_slot st
     | SetSkipCertificate s c \<Rightarrow> s < first_non_finalized_slot st \<or> s < first_too_new_vote_slot st
     | SetFinalizeCertificate s h c \<Rightarrow> s < u32_max
     | _ \<Rightarrow> True)"

fun run_within_horizon ::
  "session_description \<Rightarrow> (system_time \<times> fsm_op) list \<Rightarrow> simplex_state \<Rightarrow> bool" where
  "run_within_horizon desc [] st = True"
| "run_within_horizon desc ((t, op) # ops) st =
    (within_horizon st op \<and>
     (case fsm_step (at_time t desc) op st of
        None \<Rightarrow> True | Some (out, st1) \<Rightarrow> run_within_horizon desc ops st1))"

lemma fsm_step_live:
  assumes "live desc st" and "within_horizon st op"
  shows "\<exists>out st'. fsm_step desc op st = Some (out, st') \<and> live desc st'"
proof (cases op)
  case PullEvent
  with live_events [OF assms(1), of "tl (events st)"] assms(1) show ?thesis
    by (cases "events st") (auto simp: fsm_step_def pull_event_def)
next
  case (OnVote i v sig raw)
  with on_vote_live [OF assms(1), of i v sig raw] show ?thesis by (auto simp: fsm_step_def)
next
  case (SetNotarizeCertificate s h c)
  with set_notarize_certificate_live [OF assms(1), of s h c] assms(2) show ?thesis
    by (auto simp: fsm_step_def within_horizon_def)
next
  case (SetFinalizeCertificate s h c)
  with set_finalize_certificate_live [OF assms(1), of s h c] assms(2) show ?thesis
    by (auto simp: fsm_step_def within_horizon_def)
next
  case (SetSkipCertificate s c)
  with set_skip_certificate_live [OF assms(1), of s c] assms(2) show ?thesis
    by (auto simp: fsm_step_def within_horizon_def)
qed (use assms(1) check_all_live in \<open>auto simp: fsm_step_def on_candidate_live cleanup_live
    reset_timeouts_live\<close>)

lemma at_time_at [simp]:
  "skipped_at (at_time t desc) = skipped_at desc" "notarized_at (at_time t desc) = notarized_at desc"
  "base_at (at_time t desc) = base_at desc" "within_reach (at_time t desc) = within_reach desc"
  "self_idx (at_time t desc) = self_idx desc"
  by (simp_all add: at_defs within_reach_def fun_eq_iff) (simp add: at_time_def)

lemma at_time_live [simp]: "live (at_time t desc) st = live desc st"
  by (simp add: live_def progress_def chain_def cursor_def settled_def timer_def wf_desc_def)

lemma fsm_run_live:
  "live desc st \<Longrightarrow> run_within_horizon desc ops st \<Longrightarrow>
   \<exists>outs st'. fsm_run desc ops st = Some (outs, st') \<and> live desc st'"
proof (induction ops arbitrary: st)
  case (Cons x ops)
  obtain t op where x: "x = (t, op)" by fastforce
  obtain out st1 where 1: "fsm_step (at_time t desc) op st = Some (out, st1)" "live desc st1"
    using fsm_step_live [of "at_time t desc" st op] Cons.prems x by auto
  with Cons.IH [of st1] Cons.prems(2) x show ?case by auto
qed simp

lemma fresh_view:
  assumes "simplex_state_new desc = Some st"
  shows "slot_view desc st = (\<lambda>s. if s = 0 then slot_default\<lparr>available_base := Some None\<rparr> else slot_default)"
    and "0 < slots_per_window desc"
proof -
  let ?st = "ensure_window_exists 0 BoundedByHorizon (initial_fields desc)"
  let ?st1 = "update_window 0 (\<lambda>w. w\<lparr>lw_available_bases := insert None (lw_available_bases w)\<rparr>) ?st"
  have wf0: "wf_windows desc (initial_fields desc)" and w: "has_window ?st 0"
    and st: "st = update_slot_at 0 0 (\<lambda>s. s\<lparr>available_base := Some None\<rparr>) ?st1"
    using assms
    by (auto simp: simplex_state_new_def wf_windows_def initial_fields_def slots_per_window_def Let_def
        split: if_splits option.splits)
  show pos: "0 < slots_per_window desc" using wf0 by (rule wf_windows_pos)
  have "get_window_idx desc s = 0 \<and> get_slot_offset_in_window desc s = 0 \<longleftrightarrow> s = 0" for s
    using window_offset_eqI [of desc s 0]
    by (auto simp: get_window_idx_def get_slot_offset_in_window_def slot_window_index_def offset_in_window_def)
  moreover have "slot_view desc (initial_fields desc) s = slot_default" for s
    by (simp add: slot_view_none has_window_def initial_fields_def)
  ultimately show "slot_view desc st =
      (\<lambda>s. if s = 0 then slot_default\<lparr>available_base := Some None\<rparr> else slot_default)"
    using wf0 w by (auto simp: st fun_eq_iff slot_view_update_slot)
qed

lemma fresh_live:
  assumes "simplex_state_new desc = Some st" and "wf_desc desc" and "0 < total_weight desc"
    and "0 < target_rate (options desc)"
  shows "live desc st"
proof -
  note v = fresh_view(1) [OF assms(1)]
  have wf: "wf_windows desc st" using accounting_new [OF assms(1)] by (simp add: accounting_def)
  have f: "first_non_finalized_slot st = 0" "first_non_progressed_slot st = 0" "skip_intervals st = []"
    "leader_window_offset st = 0" "current_leader_window_idx st = 0" "\<not> startup_replay_active st"
    "timeout_base st = None" "target_rate_timeout st = target_rate (options desc)"
    using assms(1)
    by (auto simp: simplex_state_new_def initial_fields_def Let_def split: if_splits option.splits)
  have at: "\<not> skipped_at desc st s" "\<not> notarized_at desc st s" "base_at desc st 0" for s
    by (simp_all add: at_defs v slot_default_def)
  have "progress desc st"
    using wf at
    by (simp add: progress_def chain_def cursor_def settled_def boundaries_def covered_def f
        next_open_here get_window_idx_def slot_window_index_def)
  moreover have "timer desc st" using wf assms(4) by (simp add: timer_def f)
  ultimately show ?thesis
    using assms(2,3) accounting_new [OF assms(1)] by (simp add: live_def)
qed

text \<open>The states a session that keeps to the horizon can reach.\<close>

lemma live_reachable:
  assumes "simplex_state_new desc = Some st0" and "wf_desc desc" and "0 < total_weight desc"
    and "0 < target_rate (options desc)" and "run_within_horizon desc ops st0"
    and "fsm_run desc ops st0 = Some (outs, st)"
  shows "live desc st"
  using fsm_run_live [OF fresh_live [OF assms(1-4)] assms(5)] assms(6) by auto

lemma ahead_step:
  assumes "wf_windows desc st" and "fsm_step desc op st = Some (out, st')"
  shows "ahead desc st st'"
proof (cases "op = PullEvent")
  case True
  with assms show ?thesis
    by (cases "events st") (auto simp: fsm_step_def pull_event_def ahead_def)
next
  case False
  with assms show ?thesis
    by (intro ahead.P_fsm_step [OF _ assms(2), where auth = no_authority]) simp_all
qed

text \<open>The cursor's view of a live machine, over the accessors of the code.\<close>

lemma live_cursor:
  assumes "live desc st"
  shows "first_non_finalized_slot st \<le> first_non_progressed_slot st"
    and "first_non_finalized_slot st \<le> s \<Longrightarrow> s < first_non_progressed_slot st \<Longrightarrow>
         is_slot_progressed desc st s"
    and "\<not> is_slot_progressed desc st (first_non_progressed_slot st)"
    and "\<exists>b. get_slot_available_base desc st (first_non_progressed_slot st) = Some b"
    and "current_leader_window_idx st = get_window_idx desc (first_non_progressed_slot st)"
proof -
  have p: "chain desc st" "cursor desc st" "settled desc st"
    "current_leader_window_idx st = get_window_idx desc (first_non_progressed_slot st)"
    using assms by (simp_all add: live_def progress_def)
  show F: "first_non_finalized_slot st \<le> first_non_progressed_slot st"
    using p(2) by (simp add: cursor_def)
  show "is_slot_progressed desc st s"
    if "first_non_finalized_slot st \<le> s" "s < first_non_progressed_slot st"
    using p(2) that by (simp add: cursor_def progressed_at)
  show "\<not> is_slot_progressed desc st (first_non_progressed_slot st)"
    using p(3) by (simp add: settled_def progressed_at)
  have b: "base_at desc st (first_non_progressed_slot st)" using p(1-3) by (rule cursor_base)
  then show "\<exists>b. get_slot_available_base desc st (first_non_progressed_slot st) = Some b"
    using at_window(3) [OF b] F by (auto simp: get_slot_available_base_view base_at_def)
  show "current_leader_window_idx st = get_window_idx desc (first_non_progressed_slot st)"
    by (rule p(4))
qed

section \<open>The skip search is the linear scan\<close>

lemma fallback_scan_finds:
  assumes "bounded_skips (skipped_at desc st)" and "first_non_finalized_slot st \<le> n"
    and "next_open (skipped_at desc st) n < n + k"
  shows "fallback_scan_first_non_skipped desc n BoundedByHorizon k st =
    (Some (next_open (skipped_at desc st) n), st)"
  using assms(2,3)
proof (induction k arbitrary: n)
  case 0
  then show ?case using next_open(1) [OF assms(1), of n] by simp
next
  case (Suc k)
  show ?case
  proof (cases "skipped_at desc st n")
    case True
    with Suc show ?thesis
      using next_open_step [OF assms(1) True] by (simp add: skipped_cert_at_bounded)
  next
    case False
    with Suc.prems(1) show ?thesis by (simp add: skipped_cert_at_bounded next_open_here)
  qed
qed

lemma find_next_scan:
  assumes "live desc st" and "first_non_finalized_slot st \<le> s + 1"
  shows "\<exists>t. find_next_nonskipped_slot desc s BoundedByHorizon st = (Some t, st) \<and> s < t \<and>
    \<not> is_slot_skipped_cert desc st t \<and> (\<forall>u. s < u \<and> u < t \<longrightarrow> is_slot_skipped_cert desc st u) \<and>
    (\<forall>k > t. fallback_scan_first_non_skipped desc (s + 1) BoundedByHorizon k st = (Some t, st))"
proof -
  have c: "chain desc st" using assms(1) by (simp add: live_def progress_def)
  have wf: "wf_windows desc st" using live_wf [OF assms(1)] .
  note b = bounded_skipped_at [OF wf]
  let ?t = "next_open (skipped_at desc st) (s + 1)"
  note n = next_open [OF b, of "s + 1"]
  have "find_next_nonskipped_slot desc s BoundedByHorizon st = (Some ?t, st)"
    using c wf b assms(2)
    by (intro find_next_bounded [where sk = "skipped_at desc st"]) (simp_all add: chain_def)
  moreover have "is_slot_skipped_cert desc st u \<longleftrightarrow> skipped_at desc st u" if "s < u" for u
    using that assms(2) by (simp add: is_slot_skipped_cert_view skipped_at_def)
  moreover have "fallback_scan_first_non_skipped desc (s + 1) BoundedByHorizon k st = (Some ?t, st)"
    if "?t < k" for k
    using that by (intro fallback_scan_finds [OF b assms(2)]) simp
  ultimately show ?thesis using n by (intro exI [of _ ?t]) auto
qed

end
