(* ===== verification/Simplex_Liveness.thy ===== *)
theory Simplex_Liveness
  imports Simplex_Live
begin

text \<open>
  Progress of the machine.  A quorum of recorded votes never goes unnoticed: once the votes
  of a tracked slot reach the threshold, the slot has its certificate (or is finalised).  An
  expired skip timer makes the node give up the slot's whole window.
\<close>

section \<open>Quorums are noticed\<close>

definition noticed_slot :: "session_description \<Rightarrow> slot_votes \<Rightarrow> bool" where
  "noticed_slot desc sv \<longleftrightarrow>
     (\<forall>h w. (h, w) \<in> set (notarize_weight_by_block sv) \<longrightarrow> get_threshold_66 desc \<le> w \<longrightarrow>
        notarize_certificate sv \<noteq> None) \<and>
     (\<forall>h w. (h, w) \<in> set (finalize_weight_by_block sv) \<longrightarrow> get_threshold_66 desc \<le> w \<longrightarrow>
        finalize_certificate sv \<noteq> None) \<and>
     (get_threshold_66 desc \<le> skip_weight sv \<longrightarrow>
        skip_certificate sv \<noteq> None \<or> finalize_certificate sv \<noteq> None)"

definition noticed :: "session_description \<Rightarrow> simplex_state \<Rightarrow> bool" where
  "noticed desc st \<longleftrightarrow>
     (\<forall>s sv. hm_get (simplex_state.slot_votes st) s = Some sv \<longrightarrow>
        first_non_finalized_slot st \<le> s \<longrightarrow> noticed_slot desc sv)"

text \<open>A published flag comes with its certificate.\<close>

definition flagged_slot :: "slot_votes \<Rightarrow> bool" where
  "flagged_slot sv \<longleftrightarrow>
     (block_notarized_published sv \<longrightarrow> notarize_certificate sv \<noteq> None) \<and>
     (block_finalized_published sv \<longrightarrow> finalize_certificate sv \<noteq> None) \<and>
     (slot_skipped_published sv \<longrightarrow> skip_certificate sv \<noteq> None)"

definition flagged :: "session_description \<Rightarrow> simplex_state \<Rightarrow> bool" where
  "flagged desc st \<longleftrightarrow>
     wf_windows desc st \<and>
     (\<forall>s sv. hm_get (simplex_state.slot_votes st) s = Some sv \<longrightarrow> flagged_slot sv)"

lemma absorb_frame [simp]:
  "finalize_weight_by_block (absorb_notarize_signatures desc s h sigs sv) = finalize_weight_by_block sv"
  "skip_weight (absorb_notarize_signatures desc s h sigs sv) = skip_weight sv"
  "notarize_weight_by_block (absorb_skip_signatures desc s sigs sv) = notarize_weight_by_block sv"
  "finalize_weight_by_block (absorb_skip_signatures desc s sigs sv) = finalize_weight_by_block sv"
  "finalize_certificate (absorb_notarize_signatures desc s h sigs sv) = finalize_certificate sv"
  "skip_certificate (absorb_notarize_signatures desc s h sigs sv) = skip_certificate sv"
  "notarize_certificate (absorb_skip_signatures desc s sigs sv) = notarize_certificate sv"
  "finalize_certificate (absorb_skip_signatures desc s sigs sv) = finalize_certificate sv"
  "notarize_certificate (absorb_finalize_signatures desc s h sigs sv) = notarize_certificate sv"
  "skip_certificate (absorb_finalize_signatures desc s h sigs sv) = skip_certificate sv"
  "block_finalized_published (absorb_notarize_signatures desc s h sigs sv) = block_finalized_published sv"
  "slot_skipped_published (absorb_notarize_signatures desc s h sigs sv) = slot_skipped_published sv"
  "block_finalized_published (absorb_skip_signatures desc s sigs sv) = block_finalized_published sv"
  "block_notarized_published (absorb_skip_signatures desc s sigs sv) = block_notarized_published sv"
  "block_notarized_published (absorb_finalize_signatures desc s h sigs sv) = block_notarized_published sv"
  "slot_skipped_published (absorb_finalize_signatures desc s h sigs sv) = slot_skipped_published sv"
  unfolding absorb_notarize_signatures_def absorb_finalize_signatures_def absorb_skip_signatures_def
  by (induction sigs arbitrary: sv)
    (simp_all add: absorb_notarize_signature_def absorb_finalize_signature_def
      absorb_skip_signature_def Let_def split: option.split)

lemma flagged_slot_votes [simp]:
  "flagged_slot (sv\<lparr>votes := a, notarize_weight_by_block := b, notarize_or_skip_weight := c\<rparr>) = flagged_slot sv"
  "flagged_slot (sv\<lparr>votes := a, finalize_weight_by_block := b\<rparr>) = flagged_slot sv"
  "flagged_slot (sv\<lparr>votes := a, notarize_or_skip_weight := c, skip_weight := d\<rparr>) = flagged_slot sv"
  by (simp_all add: flagged_slot_def)

lemma record_flags:
  "flagged_slot (snd (record_notarize_vote desc i v sig raw sv)) = flagged_slot sv"
  "flagged_slot (snd (record_skip_vote desc i v' sig raw sv)) = flagged_slot sv"
  "flagged_slot (snd (record_finalize_vote desc i v'' sig raw sv)) = flagged_slot sv"
  by (simp_all add: record_notarize_vote_def record_skip_vote_def record_finalize_vote_def Let_def
      split: option.split)

lemma flagged_sv_step:
  "sv_step desc auth strict s sv sv' \<Longrightarrow> flagged_slot sv \<Longrightarrow> flagged_slot sv'"
proof (induction rule: sv_step.induct)
  case (sv_notarize_reached h w sv b sv')
  then show ?case
    by (auto simp: flagged_slot_def store_notarize_certificate_def split: option.splits if_splits)
next
  case (sv_finalize_reached h w sv b sv')
  then show ?case
    by (auto simp: flagged_slot_def store_finalize_certificate_def split: option.splits if_splits)
next
  case (sv_skip_reached sv b sv')
  then show ?case
    by (auto simp: flagged_slot_def store_skip_certificate_def split: option.splits if_splits)
next
  case (sv_notarize_vote i v sig raw sv r sv')
  then show ?case by (metis record_flags(1) snd_conv)
next
  case (sv_skip_vote i v sig raw sv r sv')
  then show ?case by (metis record_flags(2) snd_conv)
next
  case (sv_finalize_vote i v sig raw sv r sv')
  then show ?case by (metis record_flags(3) snd_conv)
qed (simp_all add: flagged_slot_def)

lemma flagged_at: "flagged desc st \<Longrightarrow> flagged_slot (slot_votes_at s st)"
  by (auto simp: flagged_def slot_votes_at_def flagged_slot_def slot_votes_new_def split: option.split)

interpretation flagged: machine_stable desc "flagged desc" auth False
proof (unfold_locales, goal_cases)
  case (21 st s sv)
  then have "flagged_slot sv" by (blast intro: flagged_sv_step flagged_at)
  with 21(1) show ?case by (simp add: flagged_def)
next
  case (24 st u)
  then show ?case
    using wf_windows_cleanup [of desc st u]
    by (auto simp: flagged_def cleanup_slots_def Let_def hm.get_retain split: prod.splits if_splits)
qed (auto simp: flagged_def state_defs)

text \<open>What the examination of a slot's thresholds does to the accounting: other slots keep
  theirs, the recorded votes stay and certificates are only added.\<close>

definition examined :: "session_description \<Rightarrow> slot_index \<Rightarrow> slot_votes \<Rightarrow> simplex_state \<Rightarrow> simplex_state \<Rightarrow> bool" where
  "examined desc s sv st st' \<longleftrightarrow>
     wf_windows desc st' \<and> first_non_finalized_slot st \<le> first_non_finalized_slot st' \<and>
     (\<forall>t. t \<noteq> s \<longrightarrow> hm_get (simplex_state.slot_votes st') t = hm_get (simplex_state.slot_votes st) t) \<and>
     (\<exists>sv'. hm_get (simplex_state.slot_votes st') s = Some sv' \<and> same_tally sv sv' \<and>
        (notarize_certificate sv \<noteq> None \<longrightarrow> notarize_certificate sv' \<noteq> None) \<and>
        (finalize_certificate sv \<noteq> None \<longrightarrow> finalize_certificate sv' \<noteq> None) \<and>
        (skip_certificate sv \<noteq> None \<longrightarrow> skip_certificate sv' \<noteq> None))"

lemma examined_refl:
  "wf_windows desc st \<Longrightarrow> hm_get (simplex_state.slot_votes st) s = Some sv \<Longrightarrow> examined desc s sv st st"
  by (simp add: examined_def)

lemma examined_at:
  "examined desc s sv st st' \<Longrightarrow> \<exists>sv'. hm_get (simplex_state.slot_votes st') s = Some sv' \<and> same_tally sv sv'"
  by (auto simp: examined_def)

lemma examined_trans:
  assumes "examined desc s sv st st1" and "hm_get (simplex_state.slot_votes st1) s = Some sv1"
    and "examined desc s sv1 st1 st2"
  shows "examined desc s sv st st2"
  using assms by (auto simp: examined_def intro: same_tally_trans)

text \<open>The slot is examined by storing a certificate and by operations that leave the
  accounting alone.\<close>

lemma examined_store:
  assumes "wf_windows desc st" and "hm_get (simplex_state.slot_votes st) s = Some sv"
    and "same_tally sv sv'"
    and "notarize_certificate sv \<noteq> None \<longrightarrow> notarize_certificate sv' \<noteq> None"
    and "finalize_certificate sv \<noteq> None \<longrightarrow> finalize_certificate sv' \<noteq> None"
    and "skip_certificate sv \<noteq> None \<longrightarrow> skip_certificate sv' \<noteq> None"
    and "simplex_state.slot_votes st1 = simplex_state.slot_votes (put_slot_votes s sv' st)"
    and "first_non_finalized_slot st \<le> first_non_finalized_slot st1"
    and "same_accounting desc st1 st'"
  shows "examined desc s sv st st'" and "hm_get (simplex_state.slot_votes st') s = Some sv'"
  using assms by (simp_all add: examined_def same_accounting_def)

lemma notarize_reached_examined:
  assumes "wf_windows desc st" and sv: "hm_get (simplex_state.slot_votes st) s = Some sv"
    and "notarize_reached desc s h st = Some st'"
  shows "examined desc s sv st st' \<and>
    notarize_certificate (slot_votes_at s st') \<noteq> None"
proof -
  let ?cert = "create_notarize_cert sv s h"
  obtain r sv1 where store:
    "store_notarize_certificate h ?cert (sv\<lparr>block_notarized_published := True\<rparr>) = (r, sv1)"
    by fastforce
  from assms(3) obtain b st1 where r: "r = Inr b"
    and "st1 = put_slot_votes s sv1 st \<or>
        st1 = push_event_back (NotarizationReached
          \<lparr>nre_slot = s, nre_block_hash = h, nre_certificate = ?cert\<rparr>) (put_slot_votes s sv1 st)"
    and notar: "on_block_notarized desc s h st1 = Some st'"
    by (auto simp: notarize_reached_def sv store Let_def elim!: bind_eq_SomeE
        split: sum.splits bool.splits)
  then have st1: "simplex_state.slot_votes st1 = simplex_state.slot_votes (put_slot_votes s sv1 st)"
      "first_non_finalized_slot st1 = first_non_finalized_slot st" "wf_windows desc st1"
    using assms(1) by auto
  have "same_accounting desc st1 st'"
    using st1(3) by (intro frame.P_on_block_notarized [OF _ notar]) simp
  note e = examined_store [OF assms(1) sv store_same_tally(1) [OF store] _ _ _ st1(1) _ this]
  have "notarize_certificate sv1 \<noteq> None" "finalize_certificate sv1 = finalize_certificate sv"
    "skip_certificate sv1 = skip_certificate sv"
    using store r by (auto simp: store_notarize_certificate_def split: option.splits if_splits)
  then show ?thesis using e st1(2) by (auto simp: slot_votes_at_get)
qed

lemma notarize_loop_examined:
  "wf_windows desc st \<Longrightarrow> hm_get (simplex_state.slot_votes st) s = Some sv \<Longrightarrow>
   notarize_threshold_loop desc s pub xs st = Some st' \<Longrightarrow>
   examined desc s sv st st' \<and>
   (\<not> pub \<longrightarrow> (\<exists>h w. (h, w) \<in> set xs \<and> get_threshold_66 desc \<le> w) \<longrightarrow>
      notarize_certificate (slot_votes_at s st') \<noteq> None)"
proof (induction xs arbitrary: st sv)
  case (Cons x xs)
  obtain h w where x: "x = (h, w)" by fastforce
  show ?case
  proof (cases "\<not> pub \<and> get_threshold_66 desc \<le> w")
    case True
    with Cons.prems(3) x obtain st1 where
      1: "notarize_reached desc s h st = Some st1"
      and 2: "notarize_threshold_loop desc s pub xs st1 = Some st'"
      by (auto elim!: bind_eq_SomeE)
    note e1 = notarize_reached_examined [OF Cons.prems(1,2) 1]
    obtain sv1 where sv1: "hm_get (simplex_state.slot_votes st1) s = Some sv1"
      using examined_at [OF conjunct1 [OF e1]] by blast
    have wf1: "wf_windows desc st1" using e1 by (simp add: examined_def)
    note e2 = Cons.IH [OF wf1 sv1 2]
    have "examined desc s sv st st'" using examined_trans [OF _ sv1] e1 e2 by blast
    moreover have "notarize_certificate (slot_votes_at s st') \<noteq> None"
      using e1 e2 sv1 by (auto simp: examined_def slot_votes_at_get)
    ultimately show ?thesis by blast
  next
    case False
    then have "notarize_threshold_loop desc s pub xs st = Some st'" using Cons.prems(3) x by auto
    from Cons.IH [OF Cons.prems(1,2) this] False x show ?thesis by auto
  qed
qed (simp add: examined_refl)

lemma emit_frame [simp]:
  "simplex_state.slot_votes (emit_finalized s h c b st) = simplex_state.slot_votes st"
  "first_non_finalized_slot (emit_finalized s h c b st) = first_non_finalized_slot st"
  "wf_windows desc (emit_finalized s h c b st) = wf_windows desc st"
  "simplex_state.slot_votes (emit_skipped s c' st) = simplex_state.slot_votes st"
  "first_non_finalized_slot (emit_skipped s c' st) = first_non_finalized_slot st"
  "wf_windows desc (emit_skipped s c' st) = wf_windows desc st"
  by (simp_all add: emit_finalized_def emit_skipped_def Let_def split: option.split)

lemma boundary_frame [simp]:
  "simplex_state.slot_votes (advance_finalized_boundary s st) = simplex_state.slot_votes st"
  "wf_windows desc (advance_finalized_boundary s st) = wf_windows desc st"
  "first_non_finalized_slot (advance_finalized_boundary s st) = max (first_non_finalized_slot st) (s + 1)"
  by (simp_all add: advance_finalized_boundary_def prune_skip_intervals_before_def)

lemma finalize_reached_examined:
  assumes "wf_windows desc st" and sv: "hm_get (simplex_state.slot_votes st) s = Some sv"
    and "finalize_reached desc s h st = Some (ret, st')"
  shows "examined desc s sv st st' \<and> s < first_non_finalized_slot st' \<and> \<not> ret"
proof -
  let ?cert = "create_finalize_cert sv s h"
  obtain r sv1 where store:
    "store_finalize_certificate h ?cert (sv\<lparr>block_finalized_published := True\<rparr>) = (r, sv1)"
    by fastforce
  obtain b where r: "r = Inr b"
    using assms(3) by (cases r) (auto simp: finalize_reached_def sv store Let_def)
  let ?st2 = "advance_finalized_boundary s (emit_finalized s h ?cert b (put_slot_votes s sv1 st))"
  have "advance_present desc (first_non_progressed_slot ?st2 \<le> s) s
      (record_missing_notarization desc s h ?st2) = Some st'"
    using assms(3) by (auto simp: finalize_reached_def sv store r Let_def)
  then have f: "same_accounting desc ?st2 st'"
    by (rule same_accounting_finalization) (simp add: assms(1))
  note e = examined_store [OF assms(1) sv store_same_tally(2) [OF store] _ _ _ _ _ f]
  have "notarize_certificate sv1 = notarize_certificate sv" "finalize_certificate sv1 \<noteq> None"
    "skip_certificate sv1 = skip_certificate sv"
    using store r by (auto simp: store_finalize_certificate_def split: option.splits if_splits)
  then have "examined desc s sv st st'" by (intro e(1)) simp_all
  moreover have "s < first_non_finalized_slot st'" using f by (simp add: same_accounting_def)
  moreover have "\<not> ret" using assms(3) by (auto simp: finalize_reached_def sv store r Let_def)
  ultimately show ?thesis by blast
qed

lemma finalize_loop_examined:
  assumes "wf_windows desc st" and "hm_get (simplex_state.slot_votes st) s = Some sv"
  shows "finalize_threshold_loop desc s xs st = Some (ret, st') \<Longrightarrow>
    examined desc s sv st st' \<and> \<not> ret \<and>
    (s < first_non_finalized_slot st' \<or>
     st' = st \<and> (\<forall>h w. (h, w) \<in> set xs \<longrightarrow> \<not> get_threshold_66 desc \<le> w))"
proof (induction xs)
  case (Cons x xs)
  then show ?case
    using finalize_reached_examined [OF assms]
    by (cases x) (auto split: if_splits)
qed (use assms in \<open>auto simp: examined_refl\<close>)

lemma skip_reached_examined:
  assumes "wf_windows desc st" and sv: "hm_get (simplex_state.slot_votes st) s = Some sv"
    and "skip_reached desc s st = Some st'"
  shows "examined desc s sv st st' \<and> skip_certificate (slot_votes_at s st') \<noteq> None"
proof -
  let ?cert = "create_skip_cert sv s"
  obtain b sv1 where store:
    "store_skip_certificate ?cert (sv\<lparr>slot_skipped_published := True\<rparr>) = (Inr b, sv1)"
    by (cases "skip_certificate sv") (auto simp: store_skip_certificate_def)
  obtain c where p: "progress_after_skip desc s (emit_skipped s c (put_slot_votes s sv1 st)) = Some st'"
    using assms(3) by (auto simp: skip_reached_def sv store Let_def)
  let ?st1 = "emit_skipped s c (put_slot_votes s sv1 st)"
  have "same_accounting desc ?st1 (snd (propagate_base_after_skip_cert desc s ?st1))"
    using assms(1) by (intro frame.P_propagate_skip) simp
  then have f: "same_accounting desc ?st1 st'"
    using p by (auto simp: progress_after_skip_def split: prod.splits bool.splits
        intro: frame.P_advance_leader_window)
  note e = examined_store [OF assms(1) sv store_same_tally(3) [OF store] _ _ _ _ _ f]
  have "notarize_certificate sv1 = notarize_certificate sv" "skip_certificate sv1 \<noteq> None"
    "finalize_certificate sv1 = finalize_certificate sv"
    using store by (auto simp: store_skip_certificate_def split: if_splits)
  with e show ?thesis by (auto simp: slot_votes_at_get)
qed

lemma check_thresholds_noticed:
  assumes fl: "flagged desc st" and sv: "hm_get (simplex_state.slot_votes st) s = Some sv"
    and ch: "check_thresholds_and_trigger desc s st = Some st'"
  shows "examined desc s sv st st' \<and>
    (first_non_finalized_slot st' \<le> s \<longrightarrow> noticed_slot desc (slot_votes_at s st'))"
proof -
  have wf: "wf_windows desc st" and f: "flagged_slot sv" using fl sv by (simp_all add: flagged_def)
  obtain st1 where 1: "notarize_threshold_loop desc s (block_notarized_published sv)
      (notarize_weight_by_block sv) st = Some st1"
    using ch sv by (auto simp: check_thresholds_and_trigger_def elim!: bind_eq_SomeE)
  note e1 = notarize_loop_examined [OF wf sv 1]
  obtain sv1 where sv1: "hm_get (simplex_state.slot_votes st1) s = Some sv1" "same_tally sv sv1"
    using examined_at [OF conjunct1 [OF e1]] by blast
  have wf1: "wf_windows desc st1" using e1 by (simp add: examined_def)
  obtain ret st2 where 2: "(if \<not> block_finalized_published sv
      then finalize_threshold_loop desc s (finalize_weight_by_block sv) st1
      else Some (False, st1)) = Some (ret, st2)"
    using ch sv 1 by (auto simp: check_thresholds_and_trigger_def elim!: bind_eq_SomeE)
  have e2: "examined desc s sv1 st1 st2 \<and> \<not> ret \<and> (s < first_non_finalized_slot st2 \<or>
      st2 = st1 \<and> (block_finalized_published sv \<or>
        (\<forall>h w. (h, w) \<in> set (finalize_weight_by_block sv) \<longrightarrow> \<not> get_threshold_66 desc \<le> w)))"
    using 2 finalize_loop_examined [OF wf1 sv1(1), of "finalize_weight_by_block sv" ret st2]
      examined_refl [OF wf1 sv1(1)]
    by (auto split: if_splits)
  obtain sv2 where sv2: "hm_get (simplex_state.slot_votes st2) s = Some sv2" "same_tally sv1 sv2"
    using examined_at [OF conjunct1 [OF e2]] by blast
  have wf2: "wf_windows desc st2" using e2 by (simp add: examined_def)
  have e3: "examined desc s sv2 st2 st' \<and> (skip_certificate (slot_votes_at s st') \<noteq> None \<or>
      s < first_non_finalized_slot st2 \<or> slot_skipped_published sv \<or>
      block_finalized_published sv \<or> \<not> get_threshold_66 desc \<le> skip_weight sv)"
    using ch sv 1 2 e2 skip_reached_examined [OF wf2 sv2(1), of st'] examined_refl [OF wf2 sv2(1)]
    by (auto simp: check_thresholds_and_trigger_def elim!: bind_eq_SomeE split: if_splits)
  have e: "examined desc s sv st st'"
    using examined_trans [OF examined_trans [OF _ sv1(1)] sv2(1)] e1 e2 e3 by blast
  moreover have "noticed_slot desc (slot_votes_at s st')" if "first_non_finalized_slot st' \<le> s"
  proof -
    have F2: "first_non_finalized_slot st2 \<le> s" using e3 that by (simp add: examined_def)
    obtain sv3 where sv3: "hm_get (simplex_state.slot_votes st') s = Some sv3" "same_tally sv sv3"
      "finalize_certificate sv \<noteq> None \<longrightarrow> finalize_certificate sv3 \<noteq> None"
      "skip_certificate sv \<noteq> None \<longrightarrow> skip_certificate sv3 \<noteq> None"
      "notarize_certificate sv \<noteq> None \<longrightarrow> notarize_certificate sv3 \<noteq> None"
      using e by (auto simp: examined_def)
    have n3: "notarize_certificate sv3 \<noteq> None" if "notarize_certificate sv1 \<noteq> None"
      using that e2 e3 sv2(1) sv3(1) by (auto simp: examined_def)
    have n: "notarize_certificate sv3 \<noteq> None"
      if "(h, w) \<in> set (notarize_weight_by_block sv)" "get_threshold_66 desc \<le> w" for h w
    proof (cases "block_notarized_published sv")
      case True
      with f sv3(5) show ?thesis by (simp add: flagged_slot_def)
    next
      case False
      with e1 that have "notarize_certificate sv1 \<noteq> None" by (auto simp: slot_votes_at_get [OF sv1(1)])
      then show ?thesis by (rule n3)
    qed
    have "finalize_certificate sv3 \<noteq> None"
      if "(h, w) \<in> set (finalize_weight_by_block sv)" "get_threshold_66 desc \<le> w" for h w
      using that e2 F2 f sv3(3) by (auto simp: flagged_slot_def)
    moreover have "skip_certificate sv3 \<noteq> None \<or> finalize_certificate sv3 \<noteq> None"
      if "get_threshold_66 desc \<le> skip_weight sv"
      using that e3 F2 f sv3(3,4) by (auto simp: flagged_slot_def slot_votes_at_get [OF sv3(1)])
    ultimately show ?thesis
      using n sv3(2) unfolding noticed_slot_def slot_votes_at_get [OF sv3(1)] same_tally_def by metis
  qed
  ultimately show ?thesis by blast
qed

section \<open>Every operation notices its quorums\<close>

lemma noticed_frame:
  "noticed desc st \<Longrightarrow> simplex_state.slot_votes st' = simplex_state.slot_votes st \<Longrightarrow>
   first_non_finalized_slot st \<le> first_non_finalized_slot st' \<Longrightarrow> noticed desc st'"
  unfolding noticed_def by (metis le_trans)

lemma noticed_same: "noticed desc st \<Longrightarrow> same_accounting desc st st' \<Longrightarrow> noticed desc st'"
  by (erule noticed_frame) (simp_all add: same_accounting_def)

lemma noticed_put:
  "noticed desc st \<Longrightarrow> (first_non_finalized_slot st \<le> s \<Longrightarrow> noticed_slot desc sv) \<Longrightarrow>
   noticed desc (put_slot_votes s sv st)"
  by (simp add: noticed_def)

lemma noticed_at:
  "noticed desc st \<Longrightarrow> 0 < get_threshold_66 desc \<Longrightarrow> first_non_finalized_slot st \<le> s \<Longrightarrow>
   noticed_slot desc (slot_votes_at s st)"
  by (simp add: noticed_def slot_votes_at_def split: option.split)
    (simp add: noticed_slot_def slot_votes_new_def)

lemma noticed_slot_flags [simp]:
  "noticed_slot desc (sv\<lparr>block_notarized_published := b\<rparr>) = noticed_slot desc sv"
  "noticed_slot desc (sv\<lparr>block_finalized_published := b\<rparr>) = noticed_slot desc sv"
  "noticed_slot desc (sv\<lparr>slot_skipped_published := b\<rparr>) = noticed_slot desc sv"
  by (simp_all add: noticed_slot_def)

lemma record_applied:
  "fst (record_notarize_vote desc i v sig raw sv) \<noteq> Applied \<longrightarrow>
   snd (record_notarize_vote desc i v sig raw sv) = sv"
  "fst (record_skip_vote desc i v' sig raw sv) \<noteq> Applied \<longrightarrow>
   snd (record_skip_vote desc i v' sig raw sv) = sv"
  "fst (record_finalize_vote desc i v'' sig raw sv) \<noteq> Applied \<longrightarrow>
   snd (record_finalize_vote desc i v'' sig raw sv) = sv"
  by (simp_all add: record_notarize_vote_def record_skip_vote_def record_finalize_vote_def Let_def
      split: option.split)

lemma record_not_applied:
  "r \<noteq> Applied \<Longrightarrow> record_notarize_vote desc i v sig raw sv = (r, sv') \<Longrightarrow> sv' = sv"
  "r \<noteq> Applied \<Longrightarrow> record_skip_vote desc i v' sig raw sv = (r, sv') \<Longrightarrow> sv' = sv"
  "r \<noteq> Applied \<Longrightarrow> record_finalize_vote desc i v'' sig raw sv = (r, sv') \<Longrightarrow> sv' = sv"
  using record_applied by (metis fst_conv snd_conv)+

lemma handle_vote_put:
  assumes "handle_vote desc i v sig raw st = (r, st1)"
  shows "r = SlotAlreadyFinalized \<and> st1 = st \<or>
    first_non_finalized_slot st \<le> vote_slot v \<and>
    (\<exists>sv. st1 = put_slot_votes (vote_slot v) sv st \<and> (r \<noteq> Applied \<longrightarrow> sv = slot_votes_at (vote_slot v) st))"
proof (cases v)
  case (Notarize n)
  obtain r' sv where "record_notarize_vote desc i n sig raw (slot_votes_at (nv_slot n) st) = (r', sv)"
    by fastforce
  with Notarize assms record_not_applied(1) [OF _ this] show ?thesis
    by (auto simp: handle_vote_def handle_notarize_vote_def vote_slot_def split: if_splits)
next
  case (Finalize n)
  obtain r' sv where "record_finalize_vote desc i n sig raw (slot_votes_at (fv_slot n) st) = (r', sv)"
    by fastforce
  with Finalize assms record_not_applied(3) [OF _ this] show ?thesis
    by (auto simp: handle_vote_def handle_finalize_vote_def vote_slot_def split: if_splits)
next
  case (Skip n)
  obtain r' sv where "record_skip_vote desc i n sig raw (slot_votes_at (sv_slot n) st) = (r', sv)"
    by fastforce
  with Skip assms record_not_applied(2) [OF _ this] show ?thesis
    by (auto simp: handle_vote_def handle_skip_vote_def vote_slot_def split: if_splits)
qed

lemma noticed_examined:
  assumes "examined desc s sv st1 st' \<and>
      (first_non_finalized_slot st' \<le> s \<longrightarrow> noticed_slot desc (slot_votes_at s st'))"
    and "noticed desc st" and "st1 = put_slot_votes s sv' st"
  shows "noticed desc st'"
  unfolding noticed_def
proof (intro allI impI)
  fix t sv'' assume g: "hm_get (simplex_state.slot_votes st') t = Some sv''"
    and F: "first_non_finalized_slot st' \<le> t"
  show "noticed_slot desc sv''"
  proof (cases "t = s")
    case True
    with assms(1) F g show ?thesis by (simp add: slot_votes_at_get)
  next
    case False
    have "hm_get (simplex_state.slot_votes st) t = Some sv''" "first_non_finalized_slot st \<le> t"
      using assms(1,3) g F False by (auto simp: examined_def)
    with assms(2) show ?thesis by (simp add: noticed_def)
  qed
qed

lemma noticed_on_vote:
  assumes n: "noticed desc st" and fl: "flagged desc st" and thr: "0 < get_threshold_66 desc"
    and v: "on_vote desc i v sig raw st = Some (r, st')"
  shows "noticed desc st'"
proof -
  let ?s = "vote_slot v"
  obtain r1 st1 where h: "handle_vote desc i v sig raw st = (r1, st1)" by fastforce
  have fl1: "flagged desc st1"
    using flagged.P_handle_vote [OF fl, of no_authority i v sig raw] h by simp
  have st': "st' = st \<or> (if r1 = Applied \<and> first_non_finalized_slot st1 \<le> ?s
      then check_thresholds_and_trigger desc ?s st1 = Some st' else st' = st1)"
    using v unfolding on_vote_def h by (auto simp: is_applied_def split: if_splits)
  show ?thesis
  proof (cases "st' = st \<or> st1 = st \<and> st' = st1")
    case True
    with n show ?thesis by auto
  next
    case False
    then obtain sv where sv: "st1 = put_slot_votes ?s sv st" "first_non_finalized_slot st \<le> ?s"
        "r1 \<noteq> Applied \<longrightarrow> sv = slot_votes_at ?s st"
      using handle_vote_put [OF h] st' by (auto split: if_splits)
    show ?thesis
    proof (cases "r1 = Applied")
      case True
      then have ch: "check_thresholds_and_trigger desc ?s st1 = Some st'"
        using st' False sv(1,2) by simp
      have g: "hm_get (simplex_state.slot_votes st1) ?s = Some sv" using sv(1) by simp
      show ?thesis
        using check_thresholds_noticed [OF fl1 g ch] by (rule noticed_examined) (use n sv in simp_all)
    next
      case na: False
      have "noticed desc (put_slot_votes ?s (slot_votes_at ?s st) st)"
        by (rule noticed_put [OF n]) (rule noticed_at [OF n thr])
      with na st' False sv show ?thesis by simp
    qed
  qed
qed

lemma noticed_set_notarize:
  assumes n: "noticed desc st" and wf: "wf_windows desc st" and thr: "0 < get_threshold_66 desc"
    and c: "set_notarize_certificate desc s h c st = Some (r, st')"
  shows "noticed desc st'"
proof (cases "notarize_certificate (slot_votes_at s st)")
  case None
  let ?sv = "(absorb_notarize_signatures desc s h (cert_signatures c)
      ((slot_votes_at s st)\<lparr>notarize_certificate := Some c\<rparr>))\<lparr>block_notarized_published := True\<rparr>"
  have n1: "noticed desc (put_slot_votes s ?sv st)"
    using noticed_at [OF n thr] by (intro noticed_put [OF n]) (simp add: noticed_slot_def)
  let ?st1 = "push_event_back (NotarizationReached
      \<lparr>nre_slot = s, nre_block_hash = h, nre_certificate = c\<rparr>) (put_slot_votes s ?sv st)"
  have "same_accounting desc ?st1 st'" if "on_block_notarized desc s h ?st1 = Some st'"
    using wf by (intro frame.P_on_block_notarized [OF _ that]) simp
  then have "noticed desc st'" if "on_block_notarized desc s h ?st1 = Some st'"
    using that by (intro noticed_same [OF noticed_frame [OF n1]]) simp_all
  with c None n1 show ?thesis
    by (auto simp: set_notarize_certificate_def store_notarize_certificate_def Let_def split: if_splits)
next
  case (Some c')
  have "noticed desc (put_slot_votes s (slot_votes_at s st) st)"
    by (rule noticed_put [OF n]) (rule noticed_at [OF n thr])
  with c Some show ?thesis
    by (auto simp: set_notarize_certificate_def store_notarize_certificate_def split: if_splits)
qed

lemma same_accounting_present:
  assumes "advance_present desc b s st = Some st'" and "same_accounting desc st0 st"
  shows "same_accounting desc st0 st'"
proof (cases b)
  case True
  then have "advance_leader_window_on_progress_cursor desc (advance_progress_cursor desc
      (maybe_jump_progress_cursor_after_finalization s st)) = Some st'"
    using assms(1) by (simp add: advance_present_def)
  from frame.P_advance_leader_window [OF _ this] assms(2) show ?thesis
    by (simp add: frame.P_advance_progress_cursor frame.P_maybe_jump)
qed (use assms in \<open>simp add: advance_present_def\<close>)

lemma noticed_set_finalize:
  assumes n: "noticed desc st" and wf: "wf_windows desc st" and thr: "0 < get_threshold_66 desc"
    and c: "set_finalize_certificate desc s h c st = Some (r, st')"
  shows "noticed desc st'"
proof (cases "s < first_non_finalized_slot st \<or> finalize_certificate (slot_votes_at s st) \<noteq> None")
  case True
  have "noticed desc (put_slot_votes s (slot_votes_at s st) st)"
    by (rule noticed_put [OF n]) (rule noticed_at [OF n thr])
  with c True n show ?thesis
    by (auto simp: set_finalize_certificate_def store_finalize_certificate_def split: if_splits)
next
  case False
  let ?sv = "(absorb_finalize_signatures desc s h (cert_signatures c)
      ((slot_votes_at s st)\<lparr>finalize_certificate := Some c\<rparr>))\<lparr>block_finalized_published := True\<rparr>"
  let ?st1 = "emit_finalized s h c True (put_slot_votes s ?sv st)"
  let ?st2 = "apply_final_cert_parent_chain_for_verified_certificate desc \<lparr>cpi_slot = s, cpi_hash = h\<rparr> ?st1"
  let ?st3 = "advance_finalized_boundary s ?st2"
  have 2: "same_accounting desc ?st1 ?st2" using wf by (intro frame.P_apply_final) simp
  have "same_accounting desc ?st3 ?st3" using 2 by (simp add: same_accounting_def)
  moreover have "advance_present desc (first_non_progressed_slot st \<le> s) s ?st3 = Some st'"
    using c False by (auto simp: set_finalize_certificate_def store_finalize_certificate_def Let_def)
  ultimately have "same_accounting desc ?st3 st'" by (rule same_accounting_present [rotated])
  then have "simplex_state.slot_votes st' = simplex_state.slot_votes (put_slot_votes s ?sv st)"
    "s < first_non_finalized_slot st'" "first_non_finalized_slot st \<le> first_non_finalized_slot st'"
    using 2 by (simp_all add: same_accounting_def)
  then show ?thesis using n by (auto simp: noticed_def)
qed

lemma noticed_set_skip:
  assumes n: "noticed desc st" and wf: "wf_windows desc st" and thr: "0 < get_threshold_66 desc"
    and c: "set_skip_certificate desc s c st = Some (r, st')"
  shows "noticed desc st'"
proof (cases "s < first_non_finalized_slot st \<or> skip_certificate (slot_votes_at s st) \<noteq> None")
  case True
  have "noticed desc (put_slot_votes s (slot_votes_at s st) st)"
    by (rule noticed_put [OF n]) (rule noticed_at [OF n thr])
  with c True n show ?thesis
    by (auto simp: set_skip_certificate_def store_skip_certificate_def split: if_splits)
next
  case False
  let ?sv = "(absorb_skip_signatures desc s (cert_signatures c)
      ((slot_votes_at s st)\<lparr>skip_certificate := Some c\<rparr>))\<lparr>slot_skipped_published := True\<rparr>"
  let ?st1 = "put_slot_votes s ?sv st"
  have n1: "noticed desc ?st1"
    using noticed_at [OF n thr] by (intro noticed_put [OF n]) (simp add: noticed_slot_def)
  have "slots_per_leader_window st = opt_slots_per_leader_window (options desc)"
    using wf_windows_spw [OF wf] by (simp add: slots_per_window_def)
  with c False obtain st4 where
    4: "progress_after_skip desc s (put_slot desc s (\<lambda>x. x\<lparr>skipped := True\<rparr>)
       (ensure_window_exists (get_window_idx desc s) BoundedByHorizon ?st1)) = Some st4"
    "st' = emit_skipped s (Some c) st4"
    by (auto simp: set_skip_certificate_def store_skip_certificate_def Let_def
        get_window_idx_def get_slot_offset_in_window_def put_slot_def)
  have "same_accounting desc ?st1 st4" using wf by (intro same_accounting_skip [OF 4(1)]) simp
  with n1 have "noticed desc st4" by (rule noticed_same)
  then show ?thesis unfolding 4(2) by (rule noticed_frame) simp_all
qed

lemma noticed_step:
  assumes n: "noticed desc st" and fl: "flagged desc st" and thr: "0 < get_threshold_66 desc"
    and s: "fsm_step desc op st = Some (out, st')"
  shows "noticed desc st'"
proof -
  have wf: "wf_windows desc st" using fl by (simp add: flagged_def)
  note same = noticed_same [OF n]
  show ?thesis
  proof (cases op)
    case (OnCandidate c)
    have "same_accounting desc st (snd (on_candidate desc c st))"
      using wf by (intro frame.P_on_candidate) simp
    with OnCandidate s same show ?thesis by (auto simp: fsm_step_def)
  next
    case (OnVote i v sig raw)
    with s noticed_on_vote [OF n fl thr] show ?thesis by (auto simp: fsm_step_def)
  next
    case (SetNotarizeCertificate s h c)
    with s noticed_set_notarize [OF n wf thr] show ?thesis by (auto simp: fsm_step_def)
  next
    case (SetFinalizeCertificate s h c)
    with s noticed_set_finalize [OF n wf thr] show ?thesis by (auto simp: fsm_step_def)
  next
    case (SetSkipCertificate s c)
    with s noticed_set_skip [OF n wf thr] show ?thesis by (auto simp: fsm_step_def)
  next
    case CheckAll
    then have "check_all desc st = Some st'" using s by (cases "check_all desc st") (simp_all add: fsm_step_def)
    from frame.P_check_all [OF _ this, of st] wf have "same_accounting desc st st'" by simp
    then show ?thesis by (rule same)
  next
    case (CleanupSlots u)
    then have "st' = cleanup_slots u st" using s by (simp add: fsm_step_def)
    with n show ?thesis
      by (auto simp: noticed_def, auto simp: cleanup_slots_def Let_def hm.get_retain
          split: prod.splits if_splits)
  next
    case PullEvent
    with s n show ?thesis
      by (cases "events st") (auto simp: fsm_step_def pull_event_def noticed_def)
  next
    case ResetTimeoutsOnStart
    with s n show ?thesis
      by (auto simp: fsm_step_def noticed_def reset_timeouts_on_start_def state_defs)
  qed
qed

lemma noticed_at_time [simp]:
  "noticed (at_time t desc) st = noticed desc st" "flagged (at_time t desc) st = flagged desc st"
  by (simp_all add: noticed_def noticed_slot_def flagged_def)

lemma flagged_step:
  assumes "flagged desc st" and "fsm_step desc op st = Some (out, st')"
  shows "flagged desc st'"
proof (cases "op = PullEvent")
  case True
  with assms show ?thesis
    by (cases "events st") (auto simp: fsm_step_def pull_event_def flagged_def)
next
  case False
  with assms show ?thesis
    by (intro flagged.P_fsm_step [OF _ assms(2), where auth = no_authority]) simp_all
qed

lemma noticed_run:
  assumes "simplex_state_new desc = Some st0" and "0 < total_weight desc"
    and "fsm_run desc ops st0 = Some (outs, st)"
  shows "noticed desc st"
proof -
  have thr: "0 < get_threshold_66 desc" using assms(2) by (simp add: get_threshold_66_def threshold_66_pos)
  have "simplex_state.slot_votes st0 = []" "wf_windows desc st0"
    using assms(1) accounting_new [OF assms(1)]
    by (auto simp: simplex_state_new_def initial_fields_def accounting_def Let_def
        split: if_splits option.splits)
  then have "noticed desc st0 \<and> flagged desc st0" by (simp add: noticed_def flagged_def hm_get_def)
  with assms(3) have "(noticed desc st \<and> flagged desc st) \<and> (\<forall>e \<in> set outs. True)"
  proof (rule fsm_run_invariant, goal_cases)
    case (1 t op st out st')
    then show ?case
      using noticed_step [of "at_time t desc" st op out st'] flagged_step [of "at_time t desc" st op out st'] thr
      by simp
  qed
  then show ?thesis by simp
qed

section \<open>An expired timer gives up the window\<close>

lemma skip_slots_effect:
  assumes "wf_windows desc st" and "has_window st w" and "\<forall>s \<in> set xs. get_window_idx desc s = w"
  shows "wf_windows desc (skip_slots w xs st) \<and>
    events (skip_slots w xs st) = events st @ map (\<lambda>s. BroadcastVote (Skip \<lparr>sv_slot = s\<rparr>)) xs \<and>
    (\<forall>t. slot_view desc (skip_slots w xs st) t =
       (if t \<in> set xs then mark_voted_skip (slot_view desc st t) else slot_view desc st t))"
  using assms
proof (induction xs arbitrary: st)
  case (Cons s xs)
  let ?st = "put_slot desc s mark_voted_skip (broadcast_vote (Skip \<lparr>sv_slot = s\<rparr>) st)"
  have "slots_per_leader_window st = opt_slots_per_leader_window (options desc)"
    using wf_windows_spw [OF Cons.prems(1)] by (simp add: slots_per_window_def)
  then have eq: "skip_slots w (s # xs) st = skip_slots w xs ?st"
    using Cons.prems(3) by (simp add: put_slot_def get_slot_offset_in_window_def)
  have "slot_view desc ?st t = (if t = s then mark_voted_skip (slot_view desc st t) else slot_view desc st t)" for t
    using Cons.prems by (subst slot_view_put_slot) simp_all
  moreover have "wf_windows desc ?st" "has_window ?st w" using Cons.prems(1,2) by simp_all
  ultimately show ?case
    unfolding eq using Cons.IH [of ?st] Cons.prems(3) by auto
qed simp

lemma slots_to_skip_member:
  assumes wf: "wf_windows desc st" and "has_window st w"
  shows "t \<in> set (slots_to_skip w st) \<longleftrightarrow>
    (\<exists>i < slots_per_window desc. t = w * slots_per_window desc + i \<and> \<not> voted_final (slot_view desc st t))"
  using assms wf_windows_spw [OF wf]
  by (auto simp: slots_to_skip_def get_window_eq slot_view_def slot_of_window [OF wf])

lemma try_skip_window_effect:
  assumes "wf_windows desc st" and "has_window st w"
  shows "events (try_skip_window w st) =
      events st @ map (\<lambda>s. BroadcastVote (Skip \<lparr>sv_slot = s\<rparr>)) (slots_to_skip w (ensure_window_exists w BoundedByHorizon st))"
    and "i < slots_per_window desc \<Longrightarrow>
      voted_final (slot_view desc (try_skip_window w st) (w * slots_per_window desc + i)) \<or>
      voted_skip (slot_view desc (try_skip_window w st) (w * slots_per_window desc + i))"
proof -
  let ?e = "ensure_window_exists w BoundedByHorizon st"
  have wf: "wf_windows desc ?e" and w: "has_window ?e w" using assms by simp_all
  note mem = slots_to_skip_member [OF wf w]
  have "\<forall>s \<in> set (slots_to_skip w ?e). get_window_idx desc s = w"
    using mem by (auto simp: slot_of_window [OF wf])
  note e = skip_slots_effect [OF wf w this]
  show "events (try_skip_window w st) =
      events st @ map (\<lambda>s. BroadcastVote (Skip \<lparr>sv_slot = s\<rparr>)) (slots_to_skip w ?e)"
    using e by (simp add: try_skip_window_def Let_def)
  show "voted_final (slot_view desc (try_skip_window w st) (w * slots_per_window desc + i)) \<or>
      voted_skip (slot_view desc (try_skip_window w st) (w * slots_per_window desc + i))"
    if "i < slots_per_window desc"
    using e that mem [of "w * slots_per_window desc + i"]
    by (cases "voted_final (slot_view desc ?e (w * slots_per_window desc + i))")
      (auto simp: try_skip_window_def Let_def)
qed

text \<open>The timer fires on a tracked slot the node has neither finalised nor skipped: one
  iteration casts the skip votes of the window and disarms the timer.\<close>

lemma timeout_skips_window:
  assumes wf: "wf_windows desc st" and "skip_timestamp st = Some ts" and "ts \<le> get_time desc"
    and "first_non_finalized_slot st \<le> skip_slot st"
    and w: "has_window st (get_window_idx desc (skip_slot st))"
    and v: "\<not> voted_final (slot_view desc st (skip_slot st))" "\<not> voted_skip (slot_view desc st (skip_slot st))"
  shows "\<exists>st'. process_timeouts desc st = Some st' \<and> skip_timestamp st' = None \<and>
    timeout_base st' = None \<and>
    (\<forall>i < slots_per_window desc.
       voted_final (slot_view desc st' (get_window_idx desc (skip_slot st) * slots_per_window desc + i)) \<or>
       voted_skip (slot_view desc st' (get_window_idx desc (skip_slot st) * slots_per_window desc + i))) \<and>
    BroadcastVote (Skip \<lparr>sv_slot = skip_slot st\<rparr>) \<in> set (events st')"
proof -
  define s w where "s = skip_slot st" and "w = get_window_idx desc (skip_slot st)"
  define st1 where "st1 = st\<lparr>skip_slot := skip_slot st + 1, skip_timestamp := Some (ts + target_rate_timeout st)\<rparr>"
  define st2 where "st2 = ensure_window_exists w BoundedByHorizon st1"
  define st3 where "st3 = update_window w (\<lambda>w. w\<lparr>lw_had_timeouts := True\<rparr>) st2"
  have wf1: "wf_windows desc st1" and w1: "has_window st1 w" and v1: "slot_view desc st1 t = slot_view desc st t" for t
    using wf w unfolding st1_def w_def
    by (simp_all add: wf_windows_def has_window_def slot_view_def get_window_eq)
  have wf2: "wf_windows desc st2" and w2: "has_window st2 w" and v2: "slot_view desc st2 t = slot_view desc st t" for t
    using wf1 w1 v1 unfolding st2_def by simp_all
  have wf3: "wf_windows desc st3" and w3: "has_window st3 w"
    using wf2 w2 unfolding st3_def by (simp_all add: wf_windows_update_window)
  have v3: "slot_view desc st3 t = slot_view desc st t" for t
    using w2 unfolding st3_def v2 [symmetric]
    by (subst slot_view_update_window [where g = id]) (auto simp: slot_view_window)
  define st4 where "st4 = try_skip_window w st3"
  note e = try_skip_window_effect [OF wf3 w3, folded st4_def]
  have "timeout_iteration desc (ts, st, True) =
      (ts + target_rate_timeout st,
       (if skip_slot st4 < (w + 1) * slots_per_leader_window st4
        then st4\<lparr>skip_slot := (w + 1) * slots_per_leader_window st4\<rparr> else st4)
         \<lparr>skip_timestamp := None, timeout_base := None\<rparr>, False)"
    using assms(4) w2 v v2 [of s] slot_view_window [of st2 desc s]
    unfolding timeout_iteration_def Let_def prod.case st1_def [symmetric] w_def [symmetric] st2_def [symmetric]
      st3_def [symmetric] st4_def [symmetric]
    by (simp add: st1_def get_window_eq w_def s_def)
  then obtain st5 where it: "timeout_iteration desc (ts, st, True) = (ts + target_rate_timeout st, st5, False)"
    and st5: "skip_timestamp st5 = None" "timeout_base st5 = None" "events st5 = events st4"
      "leader_windows st5 = leader_windows st4" "leader_window_offset st5 = leader_window_offset st4"
    by (auto split: if_splits)
  have v5: "slot_view desc st5 t = slot_view desc st4 t" for t
    using st5 by (simp add: slot_view_def get_window_eq has_window_def)
  have "process_timeouts desc st = Some st5"
    using assms(2,3) it
    by (simp add: process_timeouts_def while_option_unfold [of _ _ "(ts, st, True)"]
        while_option_unfold [of _ _ "(ts + target_rate_timeout st, st5, False)"]
        timeouts_pending_def is_in_future_def)
  moreover have "s \<in> set (slots_to_skip w (ensure_window_exists w BoundedByHorizon st3))"
  proof -
    have "0 < slots_per_window desc" using wf by (simp add: wf_windows_def)
    then have "s = w * slots_per_window desc + s mod slots_per_window desc \<and> s mod slots_per_window desc < slots_per_window desc"
      by (simp add: w_def s_def get_window_idx_def slots_per_window_def slot_window_index_def)
    moreover have "wf_windows desc (ensure_window_exists w BoundedByHorizon st3)"
      "has_window (ensure_window_exists w BoundedByHorizon st3) w" using wf3 w3 by simp_all
    note slots_to_skip_member [OF this]
    ultimately show ?thesis using v v3 [of s] wf3 by (auto simp: s_def)
  qed
  ultimately show ?thesis
    using st5 e v5 unfolding s_def w_def by auto
qed

end
