(* ===== verification/Simplex_Wire.thy ===== *)
theory Simplex_Wire
  imports Simplex_Agreement
begin

text \<open>
  Votes and certificates on the wire: the 32-bit conversions of slots and validator
  indices, the round trip of a vote, and what a certificate that passes
  \<^verbatim>\<open>Certificate::from_tl\<close> or \<^verbatim>\<open>from_tl_signatures\<close> is known to be.
\<close>

section \<open>Signed 32-bit fields\<close>

lemma as_i32_small: "n < 2 ^ 31 \<Longrightarrow> as_i32 n = int n"
  by (simp add: as_i32_def)

lemma as_i32_large: "2 ^ 31 \<le> n \<Longrightarrow> n < 2 ^ 32 \<Longrightarrow> as_i32 n < 0"
  by (simp add: as_i32_def)

lemma as_u32_nonneg: "0 \<le> i \<Longrightarrow> i < 2 ^ 31 \<Longrightarrow> as_u32 i = nat i"
  by (simp add: as_u32_def)

lemma as_u32_as_i32: "n < 2 ^ 32 \<Longrightarrow> as_u32 (as_i32 n) = n"
  by (auto simp: as_i32_def as_u32_def Let_def mod_diff_eq [symmetric])

lemma vote_signature_round_trip:
  "vs_validator_idx s < 2 ^ 32 \<Longrightarrow> vote_signature_from_tl (vote_signature_to_tl s) = s"
  by (simp add: vote_signature_from_tl_def vote_signature_to_tl_def as_u32_as_i32)

definition i32_vote :: "unsigned_vote \<Rightarrow> bool" where
  "i32_vote tlv \<longleftrightarrow> - (2 ^ 31) \<le> tl_slot tlv \<and> tl_slot tlv < 2 ^ 31"

lemma vote_round_trip:
  "vote_slot v < 2 ^ 31 \<Longrightarrow> tl_unsigned_to_vote (vote_to_tl_unsigned v) = Some v"
  by (cases v) (simp_all add: vote_slot_def vote_to_tl_unsigned_def tl_unsigned_to_vote_def
      as_i32_small as_u32_nonneg)

lemma large_slot_rejected:
  "2 ^ 31 \<le> vote_slot v \<Longrightarrow> vote_slot v < 2 ^ 32 \<Longrightarrow> tl_unsigned_to_vote (vote_to_tl_unsigned v) = None"
  by (cases v) (simp_all add: vote_slot_def vote_to_tl_unsigned_def tl_unsigned_to_vote_def
      as_i32_large)

lemma parsed_vote_prints:
  "i32_vote t \<Longrightarrow> tl_unsigned_to_vote t = Some v \<Longrightarrow> vote_to_tl_unsigned v = t \<and> vote_slot v < 2 ^ 31"
  by (cases t) (auto simp: i32_vote_def tl_unsigned_to_vote_def vote_to_tl_unsigned_def vote_slot_def
      as_i32_small as_u32_nonneg split: if_splits)

section \<open>The signature loop\<close>

definition signatures_ok ::
  "(bytes \<Rightarrow> bytes \<Rightarrow> bool) \<Rightarrow> session_description \<Rightarrow> vote_signature list \<Rightarrow> bool" where
  "signatures_ok verify desc sigs \<longleftrightarrow>
     distinct (map vs_validator_idx sigs) \<and>
     (\<forall>x \<in> set sigs. vs_validator_idx x < get_total_nodes desc \<and>
        verify (get_source_public_key desc (vs_validator_idx x)) (vs_signature x))"

lemma check_signatures_iff:
  assumes "length voted = get_total_nodes desc"
  shows "check_signatures verify desc voted sigs w tls = Inr (sigs', w') \<longleftrightarrow>
    sigs' = sigs @ map vote_signature_from_tl tls \<and>
    w' = w + sum_list (map (\<lambda>x. get_node_weight desc (vs_validator_idx x)) (map vote_signature_from_tl tls)) \<and>
    signatures_ok verify desc (map vote_signature_from_tl tls) \<and>
    (\<forall>x \<in> set (map vote_signature_from_tl tls). \<not> voted ! vs_validator_idx x)"
  using assms
proof (induction tls arbitrary: voted sigs w)
  case (Cons t tls)
  let ?x = "vote_signature_from_tl t"
  show ?case
    using Cons.IH [of "voted[vs_validator_idx ?x := True]" "sigs @ [?x]"
        "w + get_node_weight desc (vs_validator_idx ?x)"] Cons.prems
    by (auto simp: Let_def signatures_ok_def nth_list_update add.assoc)
qed (auto simp: signatures_ok_def)

lemma verified_signatures_iff:
  "(case check_signatures verify desc (replicate (get_total_nodes desc) False) [] 0 tls of
      Inl e \<Rightarrow> Inl e
    | Inr (signatures, voted_weight) \<Rightarrow>
        if voted_weight < get_threshold_66 desc then Inl NotEnoughSignatures
        else Inr \<lparr>cert_vote = vote, cert_signatures = signatures\<rparr>) = Inr c \<longleftrightarrow>
   cert_vote c = vote \<and> cert_signatures c = map vote_signature_from_tl tls \<and>
   valid_cert desc (\<lambda>i v. verify (get_source_public_key desc i)) vt vote c"
proof -
  define r where "r = check_signatures verify desc (replicate (get_total_nodes desc) False) [] 0 tls"
  have iff: "r = Inr (sigs', w') \<longleftrightarrow>
    sigs' = map vote_signature_from_tl tls \<and>
    w' = sum_list (map (\<lambda>x. get_node_weight desc (vs_validator_idx x)) (map vote_signature_from_tl tls)) \<and>
    signatures_ok verify desc (map vote_signature_from_tl tls)" for sigs' w'
    unfolding r_def by (subst check_signatures_iff) (auto simp: signatures_ok_def)
  have valid: "valid_cert desc (\<lambda>i v. verify (get_source_public_key desc i)) vt vote c \<longleftrightarrow>
      cert_vote c = vote \<and> signatures_ok verify desc (cert_signatures c) \<and> has_sufficient_weight c desc"
    by (auto simp: valid_cert_def signatures_ok_def cert_signers_def)
  have weight: "has_sufficient_weight c desc \<longleftrightarrow> get_threshold_66 desc \<le>
      sum_list (map (\<lambda>x. get_node_weight desc (vs_validator_idx x)) (cert_signatures c))"
    by (simp add: has_sufficient_weight_def cert_total_weight_def)
  show ?thesis
  proof (cases r)
    case (Inl e)
    then have "\<not> signatures_ok verify desc (map vote_signature_from_tl tls)"
      using iff [of "map vote_signature_from_tl tls"] by fastforce
    with Inl show ?thesis unfolding r_def [symmetric] valid by auto
  next
    case (Inr p)
    then obtain sigs' w' where p: "p = (sigs', w')" by (cases p)
    with Inr iff [of sigs' w'] show ?thesis
      unfolding r_def [symmetric] valid weight by (cases c) (auto simp: not_less)
  qed
qed

text \<open>The authority of a session: the signature of the vote's wire form, bound to the session,
  verifies under the validator's key.\<close>

definition session_authority ::
  "(bytes \<Rightarrow> bytes \<Rightarrow> bytes \<Rightarrow> bool) \<Rightarrow> (unsigned_vote \<Rightarrow> bytes) \<Rightarrow> (uint256 \<Rightarrow> bytes \<Rightarrow> bytes) \<Rightarrow>
   session_description \<Rightarrow> uint256 \<Rightarrow> authority" where
  "session_authority verify serialize data desc sid i v sig =
     verify (get_source_public_key desc i) (data sid (serialize (vote_to_tl_unsigned v))) sig"

lemma valid_cert_authority:
  assumes "\<And>i sig. auth i vt sig = auth' i vt sig"
  shows "valid_cert desc auth vt v c = valid_cert desc auth' vt v c"
  using assms by (simp add: valid_cert_def)

lemma from_tl_signatures_iff:
  "from_tl_signatures verify ser data to_vote desc sid tls v = Inr c \<longleftrightarrow>
     cert_vote c = v \<and> cert_signatures c = map vote_signature_from_tl tls \<and>
     valid_cert desc (session_authority verify ser data desc sid) (to_vote v) v c"
  unfolding from_tl_signatures_def Let_def verified_signatures_iff [where vt = "to_vote v"]
  by (subst valid_cert_authority [where auth' = "session_authority verify ser data desc sid"])
    (simp_all add: session_authority_def)

lemma certificate_from_tl_iff:
  assumes "i32_vote (tl_cert_vote t)"
  shows "certificate_from_tl verify ser data desc sid t = Inr c \<longleftrightarrow>
    tl_unsigned_to_vote (tl_cert_vote t) = Some (cert_vote c) \<and>
    cert_signatures c = map vote_signature_from_tl (tl_cert_signatures t) \<and>
    valid_cert desc (session_authority verify ser data desc sid) (cert_vote c) (cert_vote c) c"
proof (cases "tl_unsigned_to_vote (tl_cert_vote t)")
  case (Some v)
  then have p: "vote_to_tl_unsigned v = tl_cert_vote t"
    using parsed_vote_prints [OF assms] by blast
  have "valid_cert desc (\<lambda>i w. verify (get_source_public_key desc i) (data sid (ser (tl_cert_vote t)))) v v c =
      valid_cert desc (session_authority verify ser data desc sid) v v c"
    by (rule valid_cert_authority) (simp add: session_authority_def p)
  then show ?thesis
    using Some verified_signatures_iff [where vt = v and vote = v and c = c and desc = desc
        and verify = "\<lambda>key. verify key (data sid (ser (tl_cert_vote t)))" and tls = "tl_cert_signatures t"]
    by (auto simp: certificate_from_tl_def)
qed (simp add: certificate_from_tl_def)

text \<open>A typed certificate as \<^typ>\<open>vote certificate\<close>.\<close>

lemma valid_cert_map:
  "valid_cert desc auth vt (f (cert_vote c)) \<lparr>cert_vote = f (cert_vote c), cert_signatures = cert_signatures c\<rparr> \<longleftrightarrow>
   valid_cert desc auth vt (cert_vote c) c"
  by (simp add: valid_cert_def cert_signers_def has_sufficient_weight_def cert_total_weight_def)

lemma signatures_round_trip:
  assumes "valid_cert desc auth vt v c" and "get_total_nodes desc \<le> 2 ^ 32"
  shows "map vote_signature_from_tl (to_tl_vote_signature_set c) = cert_signatures c"
  using assms unfolding to_tl_vote_signature_set_def map_map
  by (intro map_idI) (auto simp: valid_cert_def cert_signers_def subset_iff intro!: vote_signature_round_trip)

lemma certificate_round_trip:
  assumes "valid_cert desc (session_authority verify ser data desc sid) (to_vote (cert_vote c)) (cert_vote c) c"
    and "get_total_nodes desc \<le> 2 ^ 32" and "vote_slot (to_vote (cert_vote c)) < 2 ^ 31"
  shows "certificate_from_tl verify ser data desc sid (certificate_to_tl to_vote c) =
    Inr \<lparr>cert_vote = to_vote (cert_vote c), cert_signatures = cert_signatures c\<rparr>"
proof -
  have "i32_vote (vote_to_tl_unsigned (to_vote (cert_vote c)))"
    using assms(3) by (cases "to_vote (cert_vote c)")
      (simp_all add: i32_vote_def vote_to_tl_unsigned_def vote_slot_def as_i32_small)
  then show ?thesis
    using assms signatures_round_trip [OF assms(1,2)] vote_round_trip [OF assms(3)]
    by (subst certificate_from_tl_iff) (auto simp: certificate_to_tl_def valid_cert_map)
qed

end
