(* ===== verification/Simplex_Examples.thy ===== *)
theory Simplex_Examples
  imports Simplex_Discipline Simplex_Liveness Simplex_Wire
begin

text \<open>
  A small session on which the properties of the development are exercised: one to
  four validators of weight one, certificates signed by all of them and short runs.
\<close>

definition demo_source :: "nat \<Rightarrow> source" where
  "demo_source i =
     \<lparr>src_id = UInt256 i, src_public_key = [of_nat i], src_adnl_id = UInt256 i, src_weight = 1\<rparr>"

definition demo_options :: session_options where
  "demo_options = default_options
     \<lparr>first_block_timeout_multiplier := Finite 1, candidate_resolve_timeout_multiplier := Finite 1\<rparr>"

definition demo_desc :: "nat \<Rightarrow> session_description" where
  "demo_desc n =
     \<lparr>session_id = UInt256 7, options = demo_options, initial_block_seqno = 1,
      sources = map demo_source [0..<n], rev_sources = map (\<lambda>i. (UInt256 i, i)) [0..<n],
      total_weight = n, self_idx = 0, shard = \<lparr>workchain_id = - 1, prefix = 0x8000000000000000\<rparr>,
      session_creation_time = 0, replay_time_us = 0, system_now = 0,
      mul_f64 = (\<lambda>d _. d)\<rparr>"

definition demo_signatures :: "nat \<Rightarrow> vote_signature list" where
  "demo_signatures n = map (\<lambda>i. \<lparr>vs_validator_idx = i, vs_signature = [of_nat i]\<rparr>) [0..<n]"

definition demo_notar :: "nat \<Rightarrow> slot_index \<Rightarrow> uint256 \<Rightarrow> notar_cert" where
  "demo_notar n s h =
     \<lparr>cert_vote = \<lparr>nv_slot = s, nv_block_hash = h\<rparr>, cert_signatures = demo_signatures n\<rparr>"

definition demo_final :: "nat \<Rightarrow> slot_index \<Rightarrow> uint256 \<Rightarrow> final_cert" where
  "demo_final n s h =
     \<lparr>cert_vote = \<lparr>fv_slot = s, fv_block_hash = h\<rparr>, cert_signatures = demo_signatures n\<rparr>"

definition demo_skip :: "nat \<Rightarrow> slot_index \<Rightarrow> skip_cert" where
  "demo_skip n s = \<lparr>cert_vote = \<lparr>sv_slot = s\<rparr>, cert_signatures = demo_signatures n\<rparr>"

text \<open>Signatures of the demo session are the validator's index as one byte.\<close>

definition demo_auth :: authority where
  "demo_auth i v sig = (sig = [of_nat i])"

lemma demo_wf: "0 < n \<Longrightarrow> wf_desc (demo_desc n)" "total_weight (demo_desc n) = n"
  by (simp_all add: wf_desc_def demo_desc_def comp_def demo_source_def sum_list_triv)

lemma demo_valid_cert:
  assumes "cert_signatures c = demo_signatures n" and "cert_vote c = x"
  shows "valid_cert (demo_desc n) demo_auth v x c"
proof -
  have "map (\<lambda>sig. get_node_weight (demo_desc n) (vs_validator_idx sig)) (cert_signatures c) =
      replicate n 1"
    unfolding assms(1)
    by (rule nth_equalityI)
      (simp_all add: demo_signatures_def get_node_weight_def demo_desc_def demo_source_def)
  then have "cert_total_weight c (demo_desc n) = n"
    by (simp only: cert_total_weight_def sum_list_replicate) simp
  then show ?thesis
    using assms threshold_66_le [of n]
    by (auto simp: valid_cert_def has_sufficient_weight_def get_threshold_66_def demo_wf
        demo_signatures_def cert_signers_def get_total_nodes_def comp_def demo_auth_def)
      (simp add: demo_desc_def)
qed

lemma demo_valid [simp]:
  "valid_op (demo_desc n) demo_auth (SetFinalizeCertificate s h (demo_final n s h))"
  "valid_op (demo_desc n) demo_auth (SetNotarizeCertificate s h (demo_notar n s h))"
  "valid_op (demo_desc n) demo_auth (SetSkipCertificate s (demo_skip n s))"
  by (simp_all add: valid_op_def demo_final_def demo_notar_def demo_skip_def demo_valid_cert)

text \<open>A candidate for slot 0, its notarisation, and the timeout of slot 1.\<close>

definition demo_block_id :: block_id_ext where
  "demo_block_id =
     \<lparr>shard_id = \<lparr>workchain_id = - 1, prefix = 0x8000000000000000\<rparr>, seq_no = 1,
      root_hash = UInt256 1, file_hash = UInt256 2\<rparr>"

definition demo_candidate :: "slot_index \<Rightarrow> uint256 \<Rightarrow> candidate" where
  "demo_candidate s h =
     \<lparr>cand_id = \<lparr>ci_slot = s, ci_hash = h, ci_block = demo_block_id\<rparr>, cand_parent_id = None,
      cand_leader = 0, cand_block = None, cand_signature = []\<rparr>"

definition demo_votes :: "(system_time \<times> fsm_op) list" where
  "demo_votes =
     [(1, ResetTimeoutsOnStart), (2, OnCandidate (demo_candidate 0 (UInt256 5))),
      (3, SetNotarizeCertificate 0 (UInt256 5) (demo_notar 1 0 (UInt256 5))),
      (10000000000, CheckAll)]"

definition demo_state :: "nat \<Rightarrow> simplex_state" where
  "demo_state n = the (simplex_state_new (demo_desc n))"

lemma demo_new: "simplex_state_new (demo_desc 1) = Some (demo_state 1)"
proof -
  have "simplex_state_new (demo_desc 1) \<noteq> None" by code_simp
  then show ?thesis unfolding demo_state_def by (rule option.collapse [symmetric, rotated])
qed

lemma demo_rate: "0 < target_rate (options (demo_desc n))"
  by (simp add: demo_desc_def demo_options_def default_options_def from_secs_def)

lemma demo_horizon: "run_within_horizon (demo_desc 1) demo_votes (demo_state 1)"
  by code_simp

definition demo_end :: simplex_state where
  "demo_end = snd (the (fsm_run (demo_desc 1) demo_votes (demo_state 1)))"

lemma demo_run:
  "fsm_run (demo_desc 1) demo_votes (demo_state 1) =
     Some (fst (the (fsm_run (demo_desc 1) demo_votes (demo_state 1))), demo_end)"
proof -
  have "fsm_run (demo_desc 1) demo_votes (demo_state 1) \<noteq> None" by code_simp
  then show ?thesis by (auto simp: demo_end_def)
qed

text \<open>One slot per window and no desync between windows.\<close>

definition demo_narrow :: session_description where
  "demo_narrow = (demo_desc 1)\<lparr>options := demo_options\<lparr>opt_max_leader_window_desync := 0\<rparr>\<rparr>"

end
