(* ===== verification/Candidate_Book.thy ===== *)
theory Candidate_Book
  imports Simplex_Session
begin

text \<open>
  The in-memory candidate store of a session (\<^verbatim>\<open>src/node/simplex/src/candidate_book.rs\<close>): the
  received candidates, the cache of serialised candidates, the first broadcast seen per slot, and
  the walk over parent links to the nearest non-empty ancestor.  The walk counts its iterations
  against \<^verbatim>\<open>MAX_CHAIN_DEPTH\<close>; here it recurses on what is left of that bound.  An inductive
  relation states what the walk looks for, and the walk is shown to find it.
\<close>

section \<open>Data\<close>

definition MAX_CHAIN_DEPTH :: nat where
  "MAX_CHAIN_DEPTH = 100000"

datatype parent_tip_resolution =
  Resolved block_id_ext | MissingParent raw_candidate_id | Unresolved | TooDeep

record received_candidate =
  rcv_slot :: slot_index
  rcv_source_idx :: validator_index
  rcv_candidate_hash_data_bytes :: bytes
  rcv_block_id :: block_id_ext
  rcv_root_hash :: uint256
  rcv_file_hash :: uint256
  rcv_data :: bytes
  rcv_collated_data :: bytes
  rcv_gen_utime_ms :: "nat option"
  rcv_receive_time :: system_time
  rcv_is_empty :: bool
  rcv_parent_id :: "raw_candidate_id option"

record candidate_book =
  received_candidates :: "(raw_candidate_id, received_candidate) hash_map"
  candidate_data_cache :: "(raw_candidate_id, bytes) hash_map"
  seen_broadcast_candidates :: "(slot_index, raw_candidate_id) hash_map"

definition candidate_book_new :: candidate_book where
  "candidate_book_new =
     \<lparr>received_candidates = [], candidate_data_cache = [], seen_broadcast_candidates = []\<rparr>"

section \<open>Received candidates\<close>

definition received :: "candidate_book \<Rightarrow> raw_candidate_id \<Rightarrow> received_candidate option" where
  "received book i = hm_get (received_candidates book) i"

definition contains_received :: "candidate_book \<Rightarrow> raw_candidate_id \<Rightarrow> bool" where
  "contains_received book i = hm_contains (received_candidates book) i"

definition has_real_body :: "candidate_book \<Rightarrow> raw_candidate_id \<Rightarrow> bool" where
  "has_real_body book i =
    (case hm_get (received_candidates book) i of
       Some r \<Rightarrow> rcv_candidate_hash_data_bytes r \<noteq> []
     | None \<Rightarrow> False)"

definition find_received_by_block_id :: "candidate_book \<Rightarrow> block_id_ext \<Rightarrow> raw_candidate_id option" where
  "find_received_by_block_id book block_id =
     map_option fst (List.find (\<lambda>(i, r). rcv_block_id r = block_id) (received_candidates book))"

definition insert_received ::
  "raw_candidate_id \<Rightarrow> received_candidate \<Rightarrow> candidate_book \<Rightarrow> received_candidate option \<times> candidate_book" where
  "insert_received i r book =
     (hm_get (received_candidates book) i,
      book\<lparr>received_candidates := hm_insert i r (received_candidates book)\<rparr>)"

section \<open>Parent-chain resolution\<close>

primrec walk_parent_chain :: "candidate_book \<Rightarrow> nat \<Rightarrow> raw_candidate_id \<Rightarrow> parent_tip_resolution" where
  "walk_parent_chain book 0 current = TooDeep"
| "walk_parent_chain book (Suc k) current =
    (case received book current of
       None \<Rightarrow> MissingParent current
     | Some r \<Rightarrow>
         if \<not> rcv_is_empty r then Resolved (rcv_block_id r)
         else (case rcv_parent_id r of
                 Some next \<Rightarrow> walk_parent_chain book k next
               | None \<Rightarrow> Unresolved))"

definition resolve_parent_tip ::
  "candidate_book \<Rightarrow> raw_candidate_id option \<Rightarrow> block_id_ext option \<Rightarrow> parent_tip_resolution" where
  "resolve_parent_tip book parent_id accepted_head =
    (case parent_id of
       None \<Rightarrow> (case accepted_head of Some head \<Rightarrow> Resolved head | None \<Rightarrow> Unresolved)
     | Some p \<Rightarrow> walk_parent_chain book MAX_CHAIN_DEPTH p)"

section \<open>Auxiliary caches\<close>

definition cached_data :: "candidate_book \<Rightarrow> raw_candidate_id \<Rightarrow> bytes option" where
  "cached_data book i = hm_get (candidate_data_cache book) i"

definition insert_cached_data ::
  "raw_candidate_id \<Rightarrow> bytes \<Rightarrow> candidate_book \<Rightarrow> bytes option \<times> candidate_book" where
  "insert_cached_data i b book =
     (hm_get (candidate_data_cache book) i,
      book\<lparr>candidate_data_cache := hm_insert i b (candidate_data_cache book)\<rparr>)"

definition seen_broadcast :: "candidate_book \<Rightarrow> slot_index \<Rightarrow> raw_candidate_id option" where
  "seen_broadcast book slot = hm_get (seen_broadcast_candidates book) slot"

definition insert_seen_broadcast ::
  "slot_index \<Rightarrow> raw_candidate_id \<Rightarrow> candidate_book \<Rightarrow> raw_candidate_id option \<times> candidate_book" where
  "insert_seen_broadcast slot i book =
    (case hm_get (seen_broadcast_candidates book) slot of
       Some existing \<Rightarrow> (Some existing, book)
     | None \<Rightarrow>
        (None, book\<lparr>seen_broadcast_candidates := hm_insert slot i (seen_broadcast_candidates book)\<rparr>))"

definition book_prune_below :: "slot_index \<Rightarrow> candidate_book \<Rightarrow> candidate_book" where
  "book_prune_below up_to_slot book =
     book\<lparr>candidate_data_cache := hm_retain (\<lambda>i. up_to_slot \<le> rci_slot i) (candidate_data_cache book),
          seen_broadcast_candidates := hm_retain (\<lambda>s. up_to_slot \<le> s) (seen_broadcast_candidates book)\<rparr>"

section \<open>What the walk finds\<close>

text \<open>\<open>tip book n current r\<close>: after walking through \<open>n\<close> empty ancestors the resolution is \<open>r\<close>.\<close>

inductive tip :: "candidate_book \<Rightarrow> nat \<Rightarrow> raw_candidate_id \<Rightarrow> parent_tip_resolution \<Rightarrow> bool"
  for book where
  missing: "received book i = None \<Longrightarrow> tip book 0 i (MissingParent i)"
| block: "received book i = Some r \<Longrightarrow> \<not> rcv_is_empty r \<Longrightarrow> tip book 0 i (Resolved (rcv_block_id r))"
| root: "received book i = Some r \<Longrightarrow> rcv_is_empty r \<Longrightarrow> rcv_parent_id r = None \<Longrightarrow>
    tip book 0 i Unresolved"
| climb: "received book i = Some r \<Longrightarrow> rcv_is_empty r \<Longrightarrow> rcv_parent_id r = Some p \<Longrightarrow>
    tip book n p t \<Longrightarrow> tip book (Suc n) i t"

lemma tip_walk: "tip book n i t \<Longrightarrow> n < k \<Longrightarrow> walk_parent_chain book k i = t"
proof (induction n i t arbitrary: k rule: tip.induct)
  case (climb i r p n t)
  then show ?case by (cases k) simp_all
qed (case_tac k; simp)+

lemma walk_tip:
  "walk_parent_chain book k i = t \<Longrightarrow> t \<noteq> TooDeep \<Longrightarrow> \<exists>n < k. tip book n i t"
proof (induction k arbitrary: i)
  case (Suc k)
  show ?case
  proof (cases "received book i")
    case None
    with Suc.prems have "t = MissingParent i" by simp
    with tip.missing [OF None] show ?thesis by blast
  next
    case (Some r)
    consider (block) "\<not> rcv_is_empty r" | (root) "rcv_is_empty r" "rcv_parent_id r = None"
      | (climb) p where "rcv_is_empty r" "rcv_parent_id r = Some p" by blast
    then show ?thesis
    proof cases
      case block
      with Suc.prems Some have "t = Resolved (rcv_block_id r)" by simp
      with tip.block [OF Some block] show ?thesis by blast
    next
      case root
      with Suc.prems Some have "t = Unresolved" by simp
      with tip.root [OF Some root] show ?thesis by blast
    next
      case climb
      with Suc.prems Some have "walk_parent_chain book k p = t" by simp
      with Suc.IH Suc.prems(2) obtain n where "n < k" "tip book n p t" by blast
      with tip.climb [OF Some climb] show ?thesis by blast
    qed
  qed
qed simp

lemma tip_unique:
  assumes "tip book n i t" and "tip book m i u"
  shows "t = u"
  using tip_walk [OF assms(1), of "Suc (n + m)"] tip_walk [OF assms(2), of "Suc (n + m)"] by simp

text \<open>Parents have smaller slots, so the number of ancestors is at most the slot.\<close>

definition slots_decrease :: "candidate_book \<Rightarrow> bool" where
  "slots_decrease book \<longleftrightarrow>
     (\<forall>i r p. received book i = Some r \<longrightarrow> rcv_parent_id r = Some p \<longrightarrow> rci_slot p < rci_slot i)"

lemma tip_exists:
  assumes "slots_decrease book"
  shows "\<exists>n t. tip book n i t \<and> t \<noteq> TooDeep \<and> n \<le> rci_slot i"
proof (induction "rci_slot i" arbitrary: i rule: less_induct)
  case less
  show ?case
  proof (cases "received book i")
    case None
    from tip.missing [OF None] show ?thesis by (intro exI [of _ 0] exI [of _ "MissingParent i"]) simp
  next
    case (Some r)
    show ?thesis
    proof (cases "rcv_is_empty r \<and> rcv_parent_id r \<noteq> None")
      case True
      then obtain p where p: "rcv_parent_id r = Some p" by blast
      with Some assms have lt: "rci_slot p < rci_slot i" by (auto simp: slots_decrease_def)
      from less [OF this] obtain n t where "tip book n p t" "t \<noteq> TooDeep" "n \<le> rci_slot p" by blast
      with lt tip.climb [OF Some _ p, of n t] True show ?thesis
        by (intro exI [of _ "Suc n"] exI [of _ t]) simp
    next
      case False
      then consider "\<not> rcv_is_empty r" | "rcv_is_empty r" "rcv_parent_id r = None" by blast
      then show ?thesis
      proof cases
        case 1
        from tip.block [OF Some 1] show ?thesis
          by (intro exI [of _ 0] exI [of _ "Resolved (rcv_block_id r)"]) simp
      next
        case 2
        from tip.root [OF Some 2] show ?thesis by (intro exI [of _ 0] exI [of _ Unresolved]) simp
      qed
    qed
  qed
qed

lemma resolve_finds_tip:
  assumes "slots_decrease book" and "rci_slot p < MAX_CHAIN_DEPTH"
  shows "\<exists>n. tip book n p (resolve_parent_tip book (Some p) head) \<and>
    resolve_parent_tip book (Some p) head \<noteq> TooDeep"
proof -
  obtain n t where t: "tip book n p t" "t \<noteq> TooDeep" "n \<le> rci_slot p"
    using tip_exists [OF assms(1), of p] by blast
  with assms(2) have "walk_parent_chain book MAX_CHAIN_DEPTH p = t"
    by (intro tip_walk [OF t(1)]) simp
  then have "resolve_parent_tip book (Some p) head = t" by (simp add: resolve_parent_tip_def)
  with t(1,2) show ?thesis by blast
qed

section \<open>First broadcast wins\<close>

lemma seen_broadcast_first:
  "seen_broadcast (snd (insert_seen_broadcast s i book)) s =
     Some (case seen_broadcast book s of None \<Rightarrow> i | Some j \<Rightarrow> j)"
  "s \<noteq> t \<Longrightarrow> seen_broadcast (snd (insert_seen_broadcast s i book)) t = seen_broadcast book t"
  "fst (insert_seen_broadcast s i book) = seen_broadcast book s"
  by (auto simp: insert_seen_broadcast_def seen_broadcast_def hm.get_insert split: option.split)

lemma book_prune_received [simp]: "received (book_prune_below s book) = received book"
  by (simp add: received_def book_prune_below_def fun_eq_iff)

lemma book_prune_seen:
  "seen_broadcast (book_prune_below s book) t = (if s \<le> t then seen_broadcast book t else None)"
  "cached_data (book_prune_below s book) i = (if s \<le> rci_slot i then cached_data book i else None)"
  by (simp_all add: seen_broadcast_def cached_data_def book_prune_below_def hm.get_retain)

end
