(* ===== verification/Session_Runtime.thy ===== *)
theory Session_Runtime
  imports Simplex_Session "HOL-Library.Multiset"
begin

text \<open>
  The per-session runtime context (\<^verbatim>\<open>src/node/simplex/src/session_runtime.rs\<close>): per-slot stage
  flags, the queue of delayed actions, the wake horizon of the main loop and the mirror of the
  receiver's activity.  Times are nanoseconds since the epoch; the wake horizon is stored as a
  saturated \<^verbatim>\<open>u64\<close>.  The handlers of delayed actions are closures over the session processor,
  a type parameter here.
\<close>

section \<open>Wake horizon\<close>

definition u64_max :: nat where
  "u64_max = 18446744073709551615"

definition wake_to_nanos :: "system_time \<Rightarrow> nat" where
  "wake_to_nanos time = min time u64_max"

definition wake_from_nanos :: "nat \<Rightarrow> system_time" where
  "wake_from_nanos nanos = nanos"

definition MAX_AWAKE_TIMEOUT :: duration where
  "MAX_AWAKE_TIMEOUT = from_millis 10"

section \<open>Per-slot state\<close>

record slot_runtime =
  slot_started_at :: system_time
  pending_generate :: bool
  generated :: bool
  sent_generated :: bool
  first_candidate_received :: bool
  first_candidate_notarized :: bool
  first_candidate_finalized :: bool

definition slot_runtime_new :: "system_time \<Rightarrow> slot_runtime" where
  "slot_runtime_new now =
     \<lparr>slot_started_at = now, pending_generate = False, generated = False, sent_generated = False,
      first_candidate_received = False, first_candidate_notarized = False,
      first_candidate_finalized = False\<rparr>"

record slot_entry =
  se_runtime :: "slot_runtime option"

type_synonym slot_map = "(slot_index, slot_entry) hash_map"

definition slot_runtime_at :: "slot_map \<Rightarrow> slot_index \<Rightarrow> slot_runtime option" where
  "slot_runtime_at m slot = Option.bind (hm_get m slot) se_runtime"

text \<open>\<open>runtime_mut\<close> with the assignment through the pointer it returns.\<close>

definition update_runtime ::
  "slot_index \<Rightarrow> system_time \<Rightarrow> (slot_runtime \<Rightarrow> slot_runtime) \<Rightarrow> slot_map \<Rightarrow> slot_map" where
  "update_runtime slot now f m =
    (let rt = (case slot_runtime_at m slot of Some rt \<Rightarrow> rt | None \<Rightarrow> slot_runtime_new now)
     in hm_insert slot \<lparr>se_runtime = Some (f rt)\<rparr> m)"

definition is_generated :: "slot_map \<Rightarrow> slot_index \<Rightarrow> bool" where
  "is_generated m slot = (case slot_runtime_at m slot of Some rt \<Rightarrow> generated rt | None \<Rightarrow> False)"

definition is_pending_generate :: "slot_map \<Rightarrow> slot_index \<Rightarrow> bool" where
  "is_pending_generate m slot =
    (case slot_runtime_at m slot of Some rt \<Rightarrow> pending_generate rt | None \<Rightarrow> False)"

definition is_sent_generated :: "slot_map \<Rightarrow> slot_index \<Rightarrow> bool" where
  "is_sent_generated m slot =
    (case slot_runtime_at m slot of Some rt \<Rightarrow> sent_generated rt | None \<Rightarrow> False)"

definition started_at :: "slot_map \<Rightarrow> slot_index \<Rightarrow> system_time \<Rightarrow> system_time" where
  "started_at m slot fallback_now =
    (case slot_runtime_at m slot of Some rt \<Rightarrow> slot_started_at rt | None \<Rightarrow> fallback_now)"

definition is_first_candidate_received :: "slot_map \<Rightarrow> slot_index \<Rightarrow> bool" where
  "is_first_candidate_received m slot =
    (case slot_runtime_at m slot of Some rt \<Rightarrow> first_candidate_received rt | None \<Rightarrow> False)"

definition is_first_candidate_notarized :: "slot_map \<Rightarrow> slot_index \<Rightarrow> bool" where
  "is_first_candidate_notarized m slot =
    (case slot_runtime_at m slot of Some rt \<Rightarrow> first_candidate_notarized rt | None \<Rightarrow> False)"

definition is_first_candidate_finalized :: "slot_map \<Rightarrow> slot_index \<Rightarrow> bool" where
  "is_first_candidate_finalized m slot =
    (case slot_runtime_at m slot of Some rt \<Rightarrow> first_candidate_finalized rt | None \<Rightarrow> False)"

definition set_pending_generate :: "slot_index \<Rightarrow> bool \<Rightarrow> system_time \<Rightarrow> slot_map \<Rightarrow> slot_map" where
  "set_pending_generate slot value now m =
     update_runtime slot now (\<lambda>rt. rt\<lparr>pending_generate := value\<rparr>) m"

definition set_generated :: "slot_index \<Rightarrow> bool \<Rightarrow> system_time \<Rightarrow> slot_map \<Rightarrow> slot_map" where
  "set_generated slot value now m = update_runtime slot now (\<lambda>rt. rt\<lparr>generated := value\<rparr>) m"

definition set_sent_generated :: "slot_index \<Rightarrow> bool \<Rightarrow> system_time \<Rightarrow> slot_map \<Rightarrow> slot_map" where
  "set_sent_generated slot value now m =
     update_runtime slot now (\<lambda>rt. rt\<lparr>sent_generated := value\<rparr>) m"

definition set_first_candidate_received :: "slot_index \<Rightarrow> bool \<Rightarrow> system_time \<Rightarrow> slot_map \<Rightarrow> slot_map" where
  "set_first_candidate_received slot value now m =
     update_runtime slot now (\<lambda>rt. rt\<lparr>first_candidate_received := value\<rparr>) m"

definition set_first_candidate_notarized :: "slot_index \<Rightarrow> bool \<Rightarrow> system_time \<Rightarrow> slot_map \<Rightarrow> slot_map" where
  "set_first_candidate_notarized slot value now m =
     update_runtime slot now (\<lambda>rt. rt\<lparr>first_candidate_notarized := value\<rparr>) m"

definition set_first_candidate_finalized :: "slot_index \<Rightarrow> bool \<Rightarrow> system_time \<Rightarrow> slot_map \<Rightarrow> slot_map" where
  "set_first_candidate_finalized slot value now m =
     update_runtime slot now (\<lambda>rt. rt\<lparr>first_candidate_finalized := value\<rparr>) m"

definition clear_runtimes_below :: "slot_index \<Rightarrow> slot_map \<Rightarrow> slot_map" where
  "clear_runtimes_below up_to_slot m =
     fold (\<lambda>slot m. case hm_get m slot of
             Some e \<Rightarrow> hm_insert slot (e\<lparr>se_runtime := None\<rparr>) m
           | None \<Rightarrow> m) [0..<up_to_slot] m"

section \<open>Delayed actions\<close>

record 'h delayed_action =
  da_expiration_time :: system_time
  da_handler :: 'h

definition push_delayed :: "system_time \<Rightarrow> 'h \<Rightarrow> 'h delayed_action list \<Rightarrow> 'h delayed_action list" where
  "push_delayed expiration_time handler q =
     q @ [\<lparr>da_expiration_time = expiration_time, da_handler = handler\<rparr>]"

definition swap_remove :: "'a list \<Rightarrow> nat \<Rightarrow> 'a list" where
  "swap_remove xs i = butlast (xs[i := last xs])"

definition position :: "('a \<Rightarrow> bool) \<Rightarrow> 'a list \<Rightarrow> nat option" where
  "position P xs = List.find (\<lambda>i. P (xs ! i)) [0..<length xs]"

definition drain_due_one ::
  "system_time \<Rightarrow> 'h delayed_action list \<Rightarrow> 'h delayed_action option \<times> 'h delayed_action list" where
  "drain_due_one now q =
    (case position (\<lambda>a. da_expiration_time a \<le> now) q of
       None \<Rightarrow> (None, q)
     | Some idx \<Rightarrow> (Some (q ! idx), swap_remove q idx))"

definition min_pending_expiration :: "'h delayed_action list \<Rightarrow> system_time option" where
  "min_pending_expiration q = (if q = [] then None else Some (Min (set (map da_expiration_time q))))"

section \<open>The runtime\<close>

record 'h session_runtime =
  session_start_prev_blocks :: "block_id_ext list"
  slots :: slot_map
  scheduling :: "'h delayed_action list"
  next_awake_time :: nat
  active_weight :: validator_weight
  last_activity :: "system_time option list"

definition session_runtime_new :: "system_time \<Rightarrow> nat \<Rightarrow> block_id_ext list \<Rightarrow> 'h session_runtime" where
  "session_runtime_new now num prev_blocks =
     \<lparr>session_start_prev_blocks = prev_blocks, slots = [], scheduling = [],
      next_awake_time = wake_to_nanos now, active_weight = 0,
      last_activity = replicate num None\<rparr>"

definition get_next_awake_time :: "'h session_runtime \<Rightarrow> system_time" where
  "get_next_awake_time r = wake_from_nanos (next_awake_time r)"

definition set_next_awake_time :: "system_time \<Rightarrow> 'h session_runtime \<Rightarrow> 'h session_runtime" where
  "set_next_awake_time time r = r\<lparr>next_awake_time := min (next_awake_time r) (wake_to_nanos time)\<rparr>"

definition reset_next_awake_time :: "system_time \<Rightarrow> 'h session_runtime \<Rightarrow> 'h session_runtime" where
  "reset_next_awake_time now r = r\<lparr>next_awake_time := wake_to_nanos (now + MAX_AWAKE_TIMEOUT)\<rparr>"

definition record_activity ::
  "validator_weight \<Rightarrow> system_time option list \<Rightarrow> 'h session_runtime \<Rightarrow> bool \<times> 'h session_runtime" where
  "record_activity w l r = (active_weight r \<noteq> w, r\<lparr>active_weight := w, last_activity := l\<rparr>)"

section \<open>Slot flags\<close>

lemma runtime_update:
  "slot_runtime_at (update_runtime slot now f m) s =
    (if s = slot then Some (f (case slot_runtime_at m slot of Some rt \<Rightarrow> rt | None \<Rightarrow> slot_runtime_new now))
     else slot_runtime_at m s)"
  by (simp add: slot_runtime_at_def update_runtime_def hm.get_insert Let_def)

lemma runtime_clear:
  "slot_runtime_at (clear_runtimes_below n m) s = (if s < n then None else slot_runtime_at m s)"
proof (induction n)
  case (Suc n)
  then show ?case
    by (auto simp: clear_runtimes_below_def slot_runtime_at_def hm.get_insert less_Suc_eq split: option.splits)
qed (simp add: clear_runtimes_below_def)

section \<open>Draining\<close>

lemma mset_swap_remove:
  assumes "i < length xs"
  shows "mset (swap_remove xs i) = mset xs - {#xs ! i#}"
proof -
  obtain ys y where xs: "xs = ys @ [y]" using assms by (cases xs rule: rev_cases) auto
  show ?thesis
  proof (cases "i < length ys")
    case True
    then show ?thesis
      by (simp add: swap_remove_def xs list_update_append nth_append mset_update butlast_append)
  next
    case False
    with assms have "i = length ys" by (simp add: xs)
    then show ?thesis by (simp add: swap_remove_def xs)
  qed
qed

lemma position_Some: "position P xs = Some i \<Longrightarrow> i < length xs \<and> P (xs ! i) \<and> (\<forall>j < i. \<not> P (xs ! j))"
  by (auto simp: position_def find_Some_iff)

lemma position_None: "position P xs = None \<longleftrightarrow> (\<forall>x \<in> set xs. \<not> P x)"
  by (simp add: position_def find_None_iff) (metis in_set_conv_nth nth_mem)

lemma drain_due_spec:
  "drain_due_one now q = (Some a, q') \<Longrightarrow>
     da_expiration_time a \<le> now \<and> a \<in> set q \<and> mset q' = mset q - {#a#}"
  "drain_due_one now q = (None, q') \<Longrightarrow> q' = q \<and> (\<forall>a \<in> set q. now < da_expiration_time a)"
  by (auto simp: drain_due_one_def position_None mset_swap_remove not_le
      dest!: position_Some split: option.splits)

end
