(* ===== verification/Cell_Bits.thy ===== *)
theory Cell_Bits
  imports Prelude
begin

unbundle bit_operations_syntax

text \<open>
  Bit strings stored in bytes, most significant bit first, as the cell layer of
  \<^verbatim>\<open>src/block/src/cell/\<close> keeps them, and the completion tag that ends a bit string whose length
  is not a multiple of eight (\<^verbatim>\<open>find_tag\<close>, \<^verbatim>\<open>append_tag\<close>).  \<open>getbit\<close> is the bit of a byte list at a
  position; what the byte-wise routines compute is stated with it.
\<close>

section \<open>Bits of bytes\<close>

definition bits_to_bytes :: "nat \<Rightarrow> nat" where
  "bits_to_bytes bits = (bits + 7) div 8"

definition getbit :: "bytes \<Rightarrow> nat \<Rightarrow> bool" where
  "getbit data k = bit (data ! (k div 8)) (7 - k mod 8)"

definition bits_of :: "bytes \<Rightarrow> nat \<Rightarrow> bool list" where
  "bits_of data n = map (getbit data) [0..<n]"

lemma length_bits_of [simp]: "length (bits_of data n) = n"
  by (simp add: bits_of_def)

lemma nth_bits_of [simp]: "k < n \<Longrightarrow> bits_of data n ! k = getbit data k"
  by (simp add: bits_of_def)

lemma bits_of_eqI: "(\<And>k. k < n \<Longrightarrow> getbit a k = getbit b k) \<Longrightarrow> bits_of a n = bits_of b n"
  by (simp add: bits_of_def)

lemma bits_of_append:
  assumes "\<And>k. k < m \<Longrightarrow> getbit c k = getbit a k"
    and "\<And>k. k < n \<Longrightarrow> getbit c (m + k) = getbit b k"
  shows "bits_of c (m + n) = bits_of a m @ bits_of b n"
proof (rule nth_equalityI)
  fix i assume "i < length (bits_of c (m + n))"
  then show "bits_of c (m + n) ! i = (bits_of a m @ bits_of b n) ! i"
    using assms(2) [of "i - m"] by (auto simp: nth_append assms(1))
qed simp

lemma getbit_take: "k < 8 * n \<Longrightarrow> getbit (take n data) k = getbit data k"
  by (simp add: getbit_def less_mult_imp_div_less mult.commute)

lemma getbit_append: "getbit (a @ b) k = (if k < 8 * length a then getbit a k else getbit b (k - 8 * length a))"
proof (cases "k < 8 * length a")
  case True
  then show ?thesis by (simp add: getbit_def nth_append less_mult_imp_div_less mult.commute)
next
  case False
  then obtain j where "k = 8 * length a + j" by (metis le_add_diff_inverse not_less)
  then show ?thesis by (simp add: getbit_def nth_append)
qed

lemma getbit_drop: "n \<le> length data \<Longrightarrow> getbit (drop n data) k = getbit data (8 * n + k)"
  by (simp add: getbit_def)

lemma bits_to_bytes_bound: "k < n \<Longrightarrow> k div 8 < bits_to_bytes n"
  by (auto simp: bits_to_bytes_def)

lemma bits_to_bytes_le: "bits_to_bytes n \<le> m \<longleftrightarrow> n \<le> 8 * m"
  by (auto simp: bits_to_bytes_def)

lemma bits_to_bytes_mult [simp]: "bits_to_bytes (8 * n) = n" "bits_to_bytes 0 = 0"
  by (simp_all add: bits_to_bytes_def)

section \<open>The completion tag\<close>

definition trailing_zeros :: "u8 \<Rightarrow> nat" where
  "trailing_zeros x = length (takeWhile (\<lambda>i. \<not> bit x i) [0..<8])"

fun find_tag_loop :: "bytes \<Rightarrow> nat \<Rightarrow> nat" where
  "find_tag_loop [] len = len"
| "find_tag_loop (x # xs) len =
    (if x = 0 then find_tag_loop xs (len - 8) else len - (1 + trailing_zeros x))"

definition find_tag :: "bytes \<Rightarrow> nat" where
  "find_tag bitstring = find_tag_loop (rev bitstring) (length bitstring * 8)"

definition append_tag :: "bytes \<Rightarrow> nat \<Rightarrow> bytes" where
  "append_tag data bits =
    (let shift = bits mod 8 in
     if shift = 0 \<or> data = [] then take (bits div 8) data @ [0x80]
     else let data1 = take (1 + bits div 8) data;
              l0 = last data1;
              l1 = (if shift \<noteq> 7 then drop_bit (7 - shift) l0 else l0);
              l2 = l1 OR 1;
              l3 = (if shift \<noteq> 7 then push_bit (7 - shift) l2 else l2)
          in butlast data1 @ [l3])"

lemma trailing_zeros_eqI:
  assumes "j < 8" and "bit x j" and "\<And>i. i < j \<Longrightarrow> \<not> bit x i"
  shows "trailing_zeros x = j"
proof -
  have split: "[0..<8] = [0..<j] @ j # [Suc j..<8]"
    using assms(1) upt_add_eq_append [of 0 j "8 - j"] by (simp add: upt_conv_Cons)
  show ?thesis
    unfolding trailing_zeros_def split using assms(2) by (subst takeWhile_append2) (auto dest: assms(3))
qed

lemma find_tag_snoc:
  "find_tag (xs @ [x]) = (if x = 0 then find_tag xs else length xs * 8 + 7 - trailing_zeros x)"
  by (simp add: find_tag_def add.commute)

lemma byte_eq_0: "(x :: u8) = 0 \<longleftrightarrow> (\<forall>t < 8. \<not> bit x (7 - t))"
proof
  assume *: "\<forall>t < 8. \<not> bit x (7 - t)"
  show "x = 0"
  proof (rule bit_eqI)
    fix j assume "possible_bit TYPE(8 word) j"
    then have "j < 8" by simp
    with * [rule_format, of "7 - j"] show "bit x j = bit 0 j" by simp
  qed
qed simp

lemma getbit_snoc_last: "t < 8 \<Longrightarrow> getbit (xs @ [x]) (8 * length xs + t) = bit x (7 - t)"
  by (simp add: getbit_def)

text \<open>The tag is the last bit that is set.\<close>

lemma find_tag_eqI:
  assumes "n < 8 * length data" and "getbit data n"
    and "\<And>k. n < k \<Longrightarrow> k < 8 * length data \<Longrightarrow> \<not> getbit data k"
  shows "find_tag data = n"
  using assms
proof (induction data rule: rev_induct)
  case (snoc x xs)
  show ?case
  proof (cases "n < 8 * length xs")
    case True
    have "\<not> bit x (7 - t)" if "t < 8" for t
      using snoc.prems(3) [of "8 * length xs + t"] that True by (simp add: getbit_snoc_last)
    then have "x = 0" by (simp add: byte_eq_0)
    moreover have "find_tag xs = n"
    proof (rule snoc.IH)
      show "n < 8 * length xs" using True .
      show "getbit xs n" using snoc.prems(2) True by (simp add: getbit_append)
      show "\<not> getbit xs k" if "n < k" "k < 8 * length xs" for k
        using snoc.prems(3) [of k] that by (simp add: getbit_append)
    qed
    ultimately show ?thesis by (simp add: find_tag_snoc)
  next
    case False
    define t where "t = n - 8 * length xs"
    have t: "n = 8 * length xs + t" "t < 8" using False snoc.prems(1) by (simp_all add: t_def)
    have on: "bit x (7 - t)" using snoc.prems(2) t by (simp add: getbit_snoc_last)
    have off: "\<not> bit x i" if "i < 7 - t" for i
    proof -
      define k where "k = 7 - i"
      have k: "k < 8" "t < k" "i = 7 - k" using that unfolding k_def by linarith+
      from snoc.prems(3) [of "8 * length xs + k"] k(1,2) t(1) show ?thesis
        unfolding k(3) by (simp add: getbit_snoc_last)
    qed
    have "trailing_zeros x = 7 - t" using on off t(2) by (intro trailing_zeros_eqI) simp_all
    moreover have "x \<noteq> 0" using on by auto
    ultimately show ?thesis using t by (simp add: find_tag_snoc)
  qed
qed simp

lemma last_take_Suc: "i < length xs \<Longrightarrow> last (take (Suc i) xs) = xs ! i \<and> butlast (take (Suc i) xs) = take i xs"
  by (simp add: take_Suc_conv_app_nth)

lemma tagged_byte:
  assumes "0 < shift" and "shift < 8" and "t < 8"
    and "l1 = (if shift \<noteq> 7 then drop_bit (7 - shift) l0 else l0)"
    and "l3 = (if shift \<noteq> 7 then push_bit (7 - shift) (l1 OR 1) else l1 OR 1)"
  shows "bit (l3 :: u8) (7 - t) \<longleftrightarrow> (t < shift \<and> bit l0 (7 - t)) \<or> t = shift"
proof -
  have l3: "l3 = push_bit (7 - shift) (drop_bit (7 - shift) l0 OR 1)" using assms(2,4,5) by (cases "shift = 7") auto
  have "bit l3 (7 - t) \<longleftrightarrow> 7 - shift \<le> 7 - t \<and> (bit l0 (7 - t) \<or> 7 - t = 7 - shift)"
    unfolding l3 using assms(3)
    by (auto simp: bit_push_bit_iff bit_or_iff bit_drop_bit_eq bit_1_iff bit_exp_iff)
  then show ?thesis using assms(2,3) by (cases "t = shift") auto
qed

text \<open>The tagged string: the bits, one set bit, zeros.\<close>

lemma append_tag_spec:
  assumes "bits \<le> 8 * length data"
  shows "length (append_tag data bits) = bits div 8 + 1"
    and "k < 8 * (bits div 8 + 1) \<Longrightarrow>
      getbit (append_tag data bits) k \<longleftrightarrow> (k < bits \<and> getbit data k) \<or> k = bits"
proof -
  define o' s where os: "o' = bits div 8" "s = bits mod 8"
  have bits: "bits = 8 * o' + s" "s < 8" by (simp_all add: os)
  obtain pre x where r: "append_tag data bits = pre @ [x]" "pre = take o' data" and lpre: "length pre = o'"
    and x: "\<And>t. t < 8 \<Longrightarrow> bit x (7 - t) \<longleftrightarrow> (t < s \<and> getbit data (8 * o' + t)) \<or> t = s"
  proof (cases "s = 0")
    case True
    have "bit (0x80 :: u8) (7 - t) \<longleftrightarrow> t = 0" if "t < 8" for t
    proof -
      have "t \<in> {0..<8}" using that by simp
      then have "t = 0 \<or> t = 1 \<or> t = 2 \<or> t = 3 \<or> t = 4 \<or> t = 5 \<or> t = 6 \<or> t = 7" by auto
      then show ?thesis by (elim disjE) simp_all
    qed
    with True assms bits show ?thesis
      by (intro that [of "take o' data" "0x80"]) (simp_all add: append_tag_def os [symmetric])
  next
    case False
    then have lt: "o' < length data" using assms bits by linarith
    define l1 where "l1 = (if s \<noteq> 7 then drop_bit (7 - s) (data ! o') else data ! o')"
    define l3 where "l3 = (if s \<noteq> 7 then push_bit (7 - s) (l1 OR 1) else l1 OR 1)"
    have "data \<noteq> []" using lt by auto
    then have "append_tag data bits = take o' data @ [l3]"
      using False last_take_Suc [OF lt]
      by (simp add: append_tag_def os [symmetric] Let_def l1_def l3_def)
    moreover have "bit l3 (7 - t) \<longleftrightarrow> (t < s \<and> getbit data (8 * o' + t)) \<or> t = s" if "t < 8" for t
      using tagged_byte [OF _ bits(2) that l1_def l3_def] False that by (simp add: getbit_def)
    ultimately show ?thesis using lt by (intro that [of "take o' data" l3]) simp_all
  qed
  show "length (append_tag data bits) = bits div 8 + 1" using r(1) lpre by (simp add: os)
  assume k: "k < 8 * (bits div 8 + 1)"
  show "getbit (append_tag data bits) k \<longleftrightarrow> (k < bits \<and> getbit data k) \<or> k = bits"
  proof (cases "k < 8 * o'")
    case True
    then show ?thesis using bits lpre r by (simp add: getbit_append getbit_take)
  next
    case False
    define t where "t = k - 8 * o'"
    have t: "k = 8 * o' + t" "t < 8" using False k by (simp_all add: t_def os)
    show ?thesis
      using x [OF t(2)] getbit_snoc_last [OF t(2), of pre x] bits lpre unfolding r(1) t(1) by simp
  qed
qed

lemma find_tag_append_tag: "bits \<le> 8 * length data \<Longrightarrow> find_tag (append_tag data bits) = bits"
proof -
  assume a: "bits \<le> 8 * length data"
  have "bits < 8 * (bits div 8 + 1)" by (simp add: mult.commute dividend_less_times_div)
  with append_tag_spec [OF a] show ?thesis by (intro find_tag_eqI) auto
qed

section \<open>Big-endian words\<close>

definition to_be_bytes :: "nat \<Rightarrow> 'a::len word \<Rightarrow> bytes" where
  "to_be_bytes n w = map (\<lambda>i. ucast (drop_bit (8 * (n - 1 - i)) w)) [0..<n]"

definition from_be_bytes :: "bytes \<Rightarrow> 'a::len word" where
  "from_be_bytes bs = foldl (\<lambda>acc b. push_bit 8 acc OR ucast b) 0 bs"

lemma length_to_be_bytes [simp]: "length (to_be_bytes n w) = n"
  by (simp add: to_be_bytes_def)

lemma getbit_to_be_bytes: "k < 8 * n \<Longrightarrow> getbit (to_be_bytes n w) k = bit w (8 * n - 1 - k)"
proof -
  assume k: "k < 8 * n"
  define q t where qt: "q = k div 8" "t = k mod 8"
  have kt: "k = 8 * q + t" "t < 8" "q < n" using k by (simp_all add: qt less_mult_imp_div_less mult.commute)
  have "8 * (n - 1 - q) + (7 - t) = 8 * n - 1 - k" using kt by (simp add: algebra_simps)
  moreover have "7 - t < 8" by linarith
  ultimately show ?thesis
    using kt(3) by (simp add: getbit_def to_be_bytes_def qt [symmetric] bit_ucast_iff bit_drop_bit_eq)
qed

lemma bit_from_be_bytes:
  "bit (from_be_bytes bs :: 'a::len word) j \<longleftrightarrow>
     j < LENGTH('a) \<and> j < 8 * length bs \<and> getbit bs (8 * length bs - 1 - j)"
proof (induction bs arbitrary: j rule: rev_induct)
  case Nil
  then show ?case by (simp add: from_be_bytes_def)
next
  case (snoc b bs)
  have "from_be_bytes (bs @ [b]) = (push_bit 8 (from_be_bytes bs) OR ucast b :: 'a word)"
    by (simp add: from_be_bytes_def)
  then have *: "bit (from_be_bytes (bs @ [b]) :: 'a word) j \<longleftrightarrow>
      j < LENGTH('a) \<and> (8 \<le> j \<and> bit (from_be_bytes bs :: 'a word) (j - 8) \<or> bit b j)"
    by (auto simp: bit_or_iff bit_push_bit_iff bit_ucast_iff dest: bit_imp_le_length)
  show ?case
  proof (cases "j < 8")
    case True
    have "8 * length (bs @ [b]) - 1 - j = 8 * length bs + (7 - j)" using True by simp
    then show ?thesis
      using True getbit_snoc_last [of "7 - j" bs b] unfolding * by simp
  next
    case False
    then have nb: "\<not> bit b j" by (auto dest: bit_imp_le_length)
    show ?thesis
    proof (cases "j < 8 * length (bs @ [b])")
      case True
      then have e: "8 * length (bs @ [b]) - 1 - j = 8 * length bs - 1 - (j - 8)" using False by simp
      have "8 * length bs - 1 - (j - 8) < 8 * length bs" using True False by simp
      then show ?thesis
        using False nb True unfolding * e snoc.IH by (auto simp: getbit_append)
    qed (use False nb in \<open>auto simp: * snoc.IH\<close>)
  qed
qed

lemma from_to_be_bytes: "8 * n = LENGTH('a) \<Longrightarrow> from_be_bytes (to_be_bytes n w) = (w :: 'a::len word)"
  by (rule bit_eqI) (auto simp: bit_from_be_bytes getbit_to_be_bytes)

end
