(* ===== verification/Level_Mask.thy ===== *)
theory Level_Mask
  imports Cell_Bits
begin

text \<open>
  Level masks of cells (\<^verbatim>\<open>LevelMask\<close> of \<^verbatim>\<open>src/block/src/cell/mod.rs\<close>): a cell that contains
  pruned branches has one hash per set bit of its mask and one more, and the mask says which of the
  stored hashes answers a question for a level.  The listing of a cell's hashes (\<^verbatim>\<open>Cell::hashes\<close>) is
  modelled over the array of stored hashes.
\<close>

section \<open>Masks\<close>

datatype level_mask = LevelMask (mask: u8)

definition with_level :: "nat \<Rightarrow> level_mask" where
  "with_level level =
    (if level = 0 then LevelMask 0 else if level = 1 then LevelMask 1
     else if level = 2 then LevelMask 3 else if level = 3 then LevelMask 7
     else LevelMask 0)"

definition is_valid_mask :: "u8 \<Rightarrow> bool" where
  "is_valid_mask m = (m \<le> 7)"

definition with_mask :: "u8 \<Rightarrow> level_mask" where
  "with_mask m = (if is_valid_mask m then LevelMask m else LevelMask 0)"

definition for_merkle_cell :: "level_mask \<Rightarrow> level_mask" where
  "for_merkle_cell children_mask = LevelMask (drop_bit 1 (mask children_mask))"

definition level :: "level_mask \<Rightarrow> nat" where
  "level m =
    (if \<not> is_valid_mask (mask m) then 255
     else unat ((mask m AND 1) + (drop_bit 1 (mask m) AND 1) + (drop_bit 2 (mask m) AND 1)))"

definition calc_hash_index :: "level_mask \<Rightarrow> nat \<Rightarrow> nat" where
  "calc_hash_index m index = level (with_mask (mask m AND mask (with_level (min index 3))))"

definition calc_virtual_hash_index :: "level_mask \<Rightarrow> nat \<Rightarrow> nat \<Rightarrow> nat" where
  "calc_virtual_hash_index m index virt_offset =
     calc_hash_index (with_mask (drop_bit virt_offset (mask m))) index"

definition virtualize :: "level_mask \<Rightarrow> nat \<Rightarrow> level_mask" where
  "virtualize m virt_offset = with_mask (drop_bit virt_offset (mask m))"

definition is_significant_index :: "level_mask \<Rightarrow> nat \<Rightarrow> bool" where
  "is_significant_index m index = (index = 0 \<or> mask m AND mask (with_level index) \<noteq> 0)"

definition mask_or :: "level_mask \<Rightarrow> level_mask \<Rightarrow> level_mask" where
  "mask_or a b = with_mask (mask a OR mask b)"

text \<open>The loop of \<^verbatim>\<open>Cell::hashes\<close> (and of \<^verbatim>\<open>depths\<close>) for a cell that is not a pruned branch:
  \<open>hash i\<close> reads the stored array at \<^verbatim>\<open>calc_hash_index(i)\<close>.  The loop runs while fewer than
  \<^verbatim>\<open>level + 1\<close> hashes are listed; \<open>k\<close> bounds the indices it visits.\<close>

definition cell_hash :: "level_mask \<Rightarrow> 'h list \<Rightarrow> nat \<Rightarrow> 'h" where
  "cell_hash m stored i = stored ! calc_hash_index m i"

fun hashes_loop :: "level_mask \<Rightarrow> 'h list \<Rightarrow> nat \<Rightarrow> nat \<Rightarrow> 'h list \<Rightarrow> 'h list option" where
  "hashes_loop m stored k i hashes =
    (if level m + 1 \<le> length hashes then Some hashes
     else if k = 0 then None
     else hashes_loop m stored (k - 1) (i + 1)
            (if is_significant_index m i then hashes @ [cell_hash m stored i] else hashes))"

declare hashes_loop.simps [simp del]

definition cell_hashes :: "level_mask \<Rightarrow> 'h list \<Rightarrow> 'h list option" where
  "cell_hashes m stored = hashes_loop m stored 4 0 []"

section \<open>Facts\<close>

lemma valid_mask_cases:
  assumes "is_valid_mask m"
  obtains "m = 0" | "m = 1" | "m = 2" | "m = 3" | "m = 4" | "m = 5" | "m = 6" | "m = 7"
proof -
  have "unat m \<le> 7" using assms by (simp add: is_valid_mask_def word_le_nat_alt)
  then have "unat m \<in> {0, 1, 2, 3, 4, 5, 6, 7}" by auto
  moreover have "m = of_nat (unat m)" by simp
  ultimately show thesis using that by (elim insertE emptyE) (simp_all add: eval_nat_numeral)
qed

text \<open>The hash for a level is preceded by one hash per mask bit below the level.\<close>

definition below :: "u8 \<Rightarrow> nat \<Rightarrow> nat" where
  "below m i = length (filter (bit m) [0..<i])"

lemma calc_hash_index_below:
  assumes "is_valid_mask m"
  shows "calc_hash_index (LevelMask m) i = below m (min i 3)"
proof -
  have "min i 3 \<in> {0, 1, 2, 3}" by auto
  with assms show ?thesis
    by (elim valid_mask_cases insertE emptyE)
      (simp_all add: calc_hash_index_def with_level_def with_mask_def is_valid_mask_def level_def below_def
        upt_conv_Cons)
qed

lemma level_below: "is_valid_mask m \<Longrightarrow> level (LevelMask m) = below m 3"
  using calc_hash_index_below [of m 3]
  by (elim valid_mask_cases) (simp_all add: level_def is_valid_mask_def below_def upt_conv_Cons)

text \<open>The listing gives back the stored hashes for every mask but \<open>101\<close>, for which the index 2 counts
  as significant although bit 1 is clear: the second hash is listed twice and the last, the hash
  of the cell itself, is missing.\<close>

lemmas mask_eval = cell_hashes_def cell_hash_def is_significant_index_def calc_hash_index_def
  with_level_def with_mask_def is_valid_mask_def level_def

lemma cell_hashes_eval:
  "cell_hashes (LevelMask 0) [a] = Some [a]"
  "cell_hashes (LevelMask 1) [a, b] = Some [a, b]"
  "cell_hashes (LevelMask 2) [a, b] = Some [a, b]"
  "cell_hashes (LevelMask 3) [a, b, c] = Some [a, b, c]"
  "cell_hashes (LevelMask 4) [a, b] = Some [a, b]"
  "cell_hashes (LevelMask 6) [a, b, c] = Some [a, b, c]"
  "cell_hashes (LevelMask 7) [a, b, c, d] = Some [a, b, c, d]"
  by (simp_all add: mask_eval hashes_loop.simps)

lemma level_eval:
  "level (LevelMask 0) = 0" "level (LevelMask 1) = 1" "level (LevelMask 2) = 1" "level (LevelMask 3) = 2"
  "level (LevelMask 4) = 1" "level (LevelMask 5) = 2" "level (LevelMask 6) = 2" "level (LevelMask 7) = 3"
  by (simp_all add: level_def is_valid_mask_def)

lemma short_list_cases:
  "length xs = 0 + 1 \<Longrightarrow> \<exists>a. xs = [a]"
  "length xs = 1 + 1 \<Longrightarrow> \<exists>a b. xs = [a, b]"
  "length xs = 2 + 1 \<Longrightarrow> \<exists>a b c. xs = [a, b, c]"
  "length xs = 3 + 1 \<Longrightarrow> \<exists>a b c d. xs = [a, b, c, d]"
  by (auto simp: eval_nat_numeral length_Suc_conv)

lemma cell_hashes_stored:
  assumes "is_valid_mask m" and "m \<noteq> 5" and "length stored = level (LevelMask m) + 1"
  shows "cell_hashes (LevelMask m) stored = Some stored"
  using assms(1)
proof (cases rule: valid_mask_cases)
qed (use assms(2,3) in \<open>auto simp only: level_eval cell_hashes_eval dest!: short_list_cases\<close>)

lemma cell_hashes_101: "cell_hashes (LevelMask 5) [a, b, c] = Some [a, b, b]"
  by (simp add: mask_eval hashes_loop.simps)

end
