(* ===== verification/Cell_Layout.thy ===== *)
theory Cell_Layout
  imports Level_Mask
begin

text \<open>
  The layout of a cell (\<^verbatim>\<open>src/block/src/cell/mod.rs\<close>): two description bytes, the hashes and depths
  when they are stored, the data with its completion tag.  The theory has the accessors of the
  buffer, \<^verbatim>\<open>build_data\<close> that writes it, \<^verbatim>\<open>check_data\<close> that validates it, and the construction of a
  cell with its hashes (\<^verbatim>\<open>compute_hashes\<close>, \<^verbatim>\<open>with_data_and_refs\<close>) over a hash function given as a
  parameter.  A cell is its buffer and its references: the plain variant, \<^verbatim>\<open>DataCell\<close>.  Sixteen-bit
  depths wrap, as the release build of the code does.
\<close>

section \<open>Errors and cell types\<close>

datatype exception_code =
    NormalTermination | AlternativeTermination | StackUnderflow | StackOverflow | IntegerOverflow
  | RangeCheckError | InvalidOpcode | TypeCheckError | CellOverflow | CellUnderflow | DictionaryError
  | UnknownError | FatalError | OutOfGas | PrunedCellAccess

text \<open>A failing call returns an exception code or a message; \<open>Panic\<close> is an index out of bounds or a
  failed assertion.\<close>

datatype cell_error = Exception exception_code | Message | Panic

datatype cell_type = Unknown | Ordinary | PrunedBranch | LibraryReference | MerkleProof | MerkleUpdate

definition cell_type_try_from :: "u8 \<Rightarrow> cell_error + cell_type" where
  "cell_type_try_from num =
    (if num = 1 then Inr PrunedBranch else if num = 2 then Inr LibraryReference
     else if num = 3 then Inr MerkleProof else if num = 4 then Inr MerkleUpdate
     else if num = 0xff then Inr Ordinary else Inl Message)"

definition SHA256_SIZE :: nat where "SHA256_SIZE = 32"
definition DEPTH_SIZE :: nat where "DEPTH_SIZE = 2"
definition MAX_REFERENCES_COUNT :: nat where "MAX_REFERENCES_COUNT = 4"
definition MAX_DATA_BITS :: nat where "MAX_DATA_BITS = 1023"
definition MAX_DATA_BYTES :: nat where "MAX_DATA_BYTES = 128"
definition MAX_DEPTH :: "16 word" where "MAX_DEPTH = 65534"

lemmas layout_sizes = SHA256_SIZE_def DEPTH_SIZE_def MAX_REFERENCES_COUNT_def MAX_DATA_BITS_def MAX_DATA_BYTES_def

section \<open>Description bytes\<close>

definition calc_d1 :: "level_mask \<Rightarrow> bool \<Rightarrow> cell_type \<Rightarrow> nat \<Rightarrow> u8" where
  "calc_d1 lm store ct refs =
    push_bit 5 (mask lm) OR (if store then 16 else 0) OR (if ct \<noteq> Ordinary then 8 else 0) OR of_nat refs"

definition calc_d2 :: "nat \<Rightarrow> u8" where
  "calc_d2 data_bit_len = of_nat (push_bit 1 (data_bit_len div 8)) + (if data_bit_len mod 8 \<noteq> 0 then 1 else 0)"

definition buf_level_mask :: "bytes \<Rightarrow> level_mask" where
  "buf_level_mask buf = with_mask (drop_bit 5 (buf ! 0))"

definition buf_level :: "bytes \<Rightarrow> nat" where
  "buf_level buf = level (buf_level_mask buf)"

definition store_hashes :: "bytes \<Rightarrow> bool" where
  "store_hashes buf = (buf ! 0 AND 16 = 16)"

definition exotic :: "bytes \<Rightarrow> bool" where
  "exotic buf = (buf ! 0 AND 8 = 8)"

definition refs_count :: "bytes \<Rightarrow> nat" where
  "refs_count buf = unat (buf ! 0 AND 7)"

definition cell_data_len :: "bytes \<Rightarrow> nat" where
  "cell_data_len buf = unat (drop_bit 1 (buf ! 1) + (buf ! 1 AND 1))"

definition hashes_count :: "bytes \<Rightarrow> nat" where
  "hashes_count buf = (if exotic buf \<and> refs_count buf = 0 \<and> buf_level buf \<noteq> 0 then 1 else buf_level buf + 1)"

definition data_offset :: "bytes \<Rightarrow> nat" where
  "data_offset buf = 2 + (if store_hashes buf then 1 else 0) * hashes_count buf * (SHA256_SIZE + DEPTH_SIZE)"

definition cell_data :: "bytes \<Rightarrow> bytes" where
  "cell_data buf = take (cell_data_len buf) (drop (data_offset buf) buf)"

definition bit_len :: "bytes \<Rightarrow> nat" where
  "bit_len buf = (if buf ! 1 AND 1 = 0 then unat (drop_bit 1 (buf ! 1)) * 8 else find_tag (cell_data buf))"

definition buf_cell_type :: "bytes \<Rightarrow> cell_type" where
  "buf_cell_type buf =
    (if \<not> exotic buf then Ordinary
     else case cell_data buf of [] \<Rightarrow> Unknown
          | b # _ \<Rightarrow> (case cell_type_try_from b of Inr ct \<Rightarrow> ct | Inl _ \<Rightarrow> Unknown))"

definition full_len :: "bytes \<Rightarrow> nat" where
  "full_len buf = data_offset buf + cell_data_len buf"

definition buf_hash :: "bytes \<Rightarrow> nat \<Rightarrow> bytes" where
  "buf_hash buf index = take SHA256_SIZE (drop (2 + index * SHA256_SIZE) buf)"

definition depths_offset :: "bytes \<Rightarrow> nat" where
  "depths_offset buf = 2 + hashes_count buf * SHA256_SIZE"

definition be16 :: "u8 \<Rightarrow> u8 \<Rightarrow> 16 word" where
  "be16 a b = push_bit 8 (ucast a) OR ucast b"

definition buf_depth :: "bytes \<Rightarrow> nat \<Rightarrow> 16 word" where
  "buf_depth buf index =
    (let off = depths_offset buf + index * DEPTH_SIZE in be16 (buf ! off) (buf ! (off + 1)))"

text \<open>The hash and the depth of a cell for a level: a pruned branch keeps those of the lower levels in
  its data.\<close>

definition cell_hash_depth :: "bytes \<Rightarrow> nat \<Rightarrow> bytes \<times> 16 word" where
  "cell_hash_depth buf index =
    (let lm = buf_level_mask buf; array_index = calc_hash_index lm index; lvl = level lm in
     if buf_cell_type buf = PrunedBranch \<and> array_index < lvl then
       let data = cell_data buf; h_off = 1 + 1 + array_index * SHA256_SIZE;
           d_off = 1 + 1 + lvl * SHA256_SIZE + array_index * DEPTH_SIZE
       in (take SHA256_SIZE (drop h_off data), be16 (data ! d_off) (data ! (d_off + 1)))
     else
       let i = (if buf_cell_type buf = PrunedBranch then 0 else array_index)
       in (buf_hash buf i, buf_depth buf i))"

section \<open>Building and checking a buffer\<close>

definition build_data ::
  "bytes \<Rightarrow> cell_type \<Rightarrow> u8 \<Rightarrow> nat \<Rightarrow> (bytes \<times> 16 word) list option \<Rightarrow> cell_error + bytes" where
  "build_data data ct lm refs hashes_depths =
    (if MAX_DATA_BYTES < length data then Inl Message
     else if MAX_REFERENCES_COUNT < refs then Inl Message
     else if \<not> is_valid_mask lm then Inl Message
     else
       let buf0 = [calc_d1 (with_mask lm) (hashes_depths \<noteq> None) ct refs, calc_d2 (find_tag data)];
           data_len = cell_data_len buf0
       in case hashes_depths of
            None \<Rightarrow> Inr (buf0 @ take data_len data)
          | Some hds \<Rightarrow>
              if hashes_count buf0 \<noteq> length hds then Inl Message
              else Inr (buf0 @ concat (map fst hds) @ concat (map (to_be_bytes 2 \<circ> snd) hds) @ take data_len data))"

record cell_raw_info =
  info_d1 :: u8
  info_d2 :: u8
  info_data :: bytes
  info_bit_len :: nat

text \<open>What the checks of each exotic type ask of the data.\<close>

definition check_exotic :: "bytes \<Rightarrow> unit option" where
  "check_exotic raw =
    (let cdata = cell_data raw; lvl = buf_level raw; refs = refs_count raw; bits = bit_len raw in
     if cdata = [] then None
     else case cell_type_try_from (cdata ! 0) of
       Inl _ \<Rightarrow> None
     | Inr PrunedBranch \<Rightarrow>
         if refs \<noteq> 0 \<or> lvl = 0 \<or> bits \<noteq> 8 * (1 + 1 + lvl * (SHA256_SIZE + DEPTH_SIZE)) \<or>
            cdata ! 1 \<noteq> mask (buf_level_mask raw) \<or>
            (\<exists>j \<in> set [0..<lvl]. let off = 1 + 1 + lvl * SHA256_SIZE + j * DEPTH_SIZE in
               MAX_DEPTH < be16 (cdata ! off) (cdata ! (off + 1)))
         then None else Some ()
     | Inr MerkleProof \<Rightarrow>
         if bits \<noteq> 8 * (1 + SHA256_SIZE + DEPTH_SIZE) \<or> refs \<noteq> 1 then None else Some ()
     | Inr MerkleUpdate \<Rightarrow>
         if bits \<noteq> 8 * (1 + 2 * (SHA256_SIZE + DEPTH_SIZE)) \<or> refs \<noteq> 2 then None else Some ()
     | Inr LibraryReference \<Rightarrow>
         if bits \<noteq> 8 * (1 + SHA256_SIZE) \<or> refs \<noteq> 0 then None else Some ()
     | Inr _ \<Rightarrow> None)"

definition check_data :: "bytes \<Rightarrow> bool \<Rightarrow> cell_error + cell_raw_info" where
  "check_data raw unbounded =
    (if length raw < 2 then Inl Message
     else if \<not> is_valid_mask (mask (buf_level_mask raw)) then Inl Message
     else if MAX_REFERENCES_COUNT < refs_count raw then Inl Message
     else if MAX_DATA_BYTES < cell_data_len raw then Inl Message
     else if (if unbounded then length raw < full_len raw else length raw \<noteq> full_len raw) then Inl Message
     else if raw ! 1 AND 1 \<noteq> 0 \<and> 0 < cell_data_len raw \<and> last (cell_data raw) = 0 then Inl Message
     else if store_hashes raw \<and> (\<exists>i \<in> set [0..<hashes_count raw]. MAX_DEPTH < buf_depth raw i) then Inl Message
     else if \<not> exotic raw \<and> MAX_DATA_BITS < bit_len raw then Inl Message
     else if exotic raw \<and> check_exotic raw = None then Inl Message
     else Inr \<lparr>info_d1 = raw ! 0, info_d2 = raw ! 1, info_data = cell_data raw, info_bit_len = bit_len raw\<rparr>)"

section \<open>Cells and their hashes\<close>

datatype cell = Cell (cell_buf: bytes) (cell_references: "cell list")

fun children_depth :: "16 word list \<Rightarrow> 16 word \<Rightarrow> 16 word \<Rightarrow> cell_error + 16 word" where
  "children_depth [] max_depth cur_depth = Inr cur_depth"
| "children_depth (d # ds) max_depth cur_depth =
    (let c = max cur_depth (d + 1) in if max_depth < c then Inl Message else children_depth ds max_depth c)"

text \<open>One round of the loop over the levels; \<open>stored\<close> are the hashes and depths the buffer brought.\<close>

definition compute_level ::
  "(bytes \<Rightarrow> bytes) \<Rightarrow> u8 \<Rightarrow> u8 \<Rightarrow> bytes \<Rightarrow> cell_type \<Rightarrow> (bytes list \<times> 16 word list) option \<Rightarrow> cell list \<Rightarrow>
   16 word \<Rightarrow> nat \<Rightarrow> bytes list \<times> 16 word list \<Rightarrow> cell_error + bytes list \<times> 16 word list" where
  "compute_level sha d1 d2 cdata ct stored refs max_depth i acc =
    (let lm = with_mask (drop_bit 5 d1); hash_index = length (fst acc);
         bit_length = (if d2 AND 1 = 0 then unat (drop_bit 1 d2) * 8 else find_tag cdata);
         is_merkle = (ct = MerkleProof \<or> ct = MerkleUpdate)
     in if i \<noteq> 0 \<and> (ct = PrunedBranch \<or> push_bit (i - 1) 1 AND mask lm = 0) then Inr acc
        else
          let cur_lm = (if ct = PrunedBranch then lm else with_level i);
              children = map (\<lambda>r. cell_hash_depth (cell_buf r) (i + (if is_merkle then 1 else 0))) refs;
              body = (if i = 0 then take (bit_length div 8 + (if bit_length mod 8 \<noteq> 0 then 1 else 0)) cdata
                      else fst acc ! (hash_index - 1));
              computed = sha ([calc_d1 cur_lm False ct (length refs), d2] @ body @
                concat (map (to_be_bytes 2 \<circ> snd) children) @ concat (map fst children))
          in case children_depth (map snd children) max_depth 0 of
               Inl e \<Rightarrow> Inl e
             | Inr cur_depth \<Rightarrow>
                 if (case stored of None \<Rightarrow> False
                     | Some (hs, ds) \<Rightarrow> computed \<noteq> hs ! hash_index \<or> cur_depth \<noteq> ds ! hash_index)
                 then Inl Message
                 else Inr (fst acc @ [computed], snd acc @ [cur_depth]))"

fun compute_levels ::
  "(nat \<Rightarrow> 'a \<Rightarrow> cell_error + 'a) \<Rightarrow> nat list \<Rightarrow> 'a \<Rightarrow> cell_error + 'a" where
  "compute_levels f [] acc = Inr acc"
| "compute_levels f (i # is) acc = (case f i acc of Inl e \<Rightarrow> Inl e | Inr acc' \<Rightarrow> compute_levels f is acc')"

definition compute_hashes ::
  "(bytes \<Rightarrow> bytes) \<Rightarrow> u8 \<Rightarrow> u8 \<Rightarrow> bytes \<Rightarrow> (bytes list \<times> 16 word list) option \<Rightarrow> cell list \<Rightarrow>
   16 word \<Rightarrow> cell_error + bytes list \<times> 16 word list" where
  "compute_hashes sha d1 d2 cdata stored refs max_depth =
    (case (if d1 AND 8 \<noteq> 0 then cell_type_try_from (cdata ! 0) else Inr Ordinary) of
       Inl e \<Rightarrow> Inl e
     | Inr ct \<Rightarrow> compute_levels (compute_level sha d1 d2 cdata ct stored refs max_depth) [0, 1, 2, 3] ([], []))"

definition with_data_and_refs ::
  "(bytes \<Rightarrow> bytes) \<Rightarrow> bytes \<Rightarrow> bool \<Rightarrow> cell list \<Rightarrow> 16 word option \<Rightarrow> cell_error + cell" where
  "with_data_and_refs sha raw unbounded refs max_depth =
    (case check_data raw unbounded of
       Inl e \<Rightarrow> Inl e
     | Inr info \<Rightarrow>
         if length refs \<noteq> refs_count raw then Inl Message
         else
           let ct = (if info_d1 info AND 8 \<noteq> 0
                     then case cell_type_try_from (info_data info ! 0) of Inr c \<Rightarrow> c | Inl _ \<Rightarrow> Unknown
                     else Ordinary);
               d1 = calc_d1 (with_mask (drop_bit 5 (info_d1 info))) False ct (length refs);
               hash_count = hashes_count [d1, info_d2 info];
               stored = (if store_hashes raw
                 then Some (map (buf_hash raw) [0..<hash_count], map (buf_depth raw) [0..<hash_count]) else None);
               d1' = (if store_hashes raw then d1 OR 16 else d1)
           in case compute_hashes sha d1' (info_d2 info) (info_data info) stored refs
                     (case max_depth of None \<Rightarrow> MAX_DEPTH | Some d \<Rightarrow> d) of
                Inl e \<Rightarrow> Inl e
              | Inr (hs, ds) \<Rightarrow>
                  Inr (Cell ([d1' OR 16, info_d2 info] @ concat hs @ concat (map (to_be_bytes 2) ds) @ info_data info)
                         refs))"

section \<open>Description bytes describe\<close>

lemma small_refs_cases:
  assumes "n \<le> 4"
  obtains "n = 0" | "n = 1" | "n = 2" | "n = 3" | "n = (4 :: nat)"
  using assms by (auto simp: le_less eval_nat_numeral less_Suc_eq)

lemma d1_fields:
  assumes "is_valid_mask m" and "n \<le> 4"
  shows "drop_bit 5 (calc_d1 (LevelMask m) st ct n) = m"
    and "calc_d1 (LevelMask m) st ct n AND 16 = 16 \<longleftrightarrow> st"
    and "calc_d1 (LevelMask m) st ct n AND 8 = 8 \<longleftrightarrow> ct \<noteq> Ordinary"
    and "calc_d1 (LevelMask m) st ct n AND 8 = 0 \<longleftrightarrow> ct = Ordinary"
    and "unat (calc_d1 (LevelMask m) st ct n AND 7) = n"
    and "calc_d1 (LevelMask m) False ct n OR 16 = calc_d1 (LevelMask m) True ct n"
  using assms
  by (elim valid_mask_cases small_refs_cases; cases st; cases "ct = Ordinary"; simp add: calc_d1_def)+

lemma d2_fields:
  assumes "bits < 1024"
  shows "drop_bit 1 (calc_d2 bits) = of_nat (bits div 8)"
    and "calc_d2 bits AND 1 = (if bits mod 8 \<noteq> 0 then 1 else 0)"
    and "unat (drop_bit 1 (calc_d2 bits) + (calc_d2 bits AND 1)) = bits_to_bytes bits"
    and "unat (drop_bit 1 (calc_d2 bits)) = bits div 8"
proof -
  define q :: nat where "q = bits div 8"
  define r :: nat where "r = (if bits mod 8 \<noteq> 0 then 1 else 0)"
  have q: "q < 128" using assms by (simp add: q_def less_mult_imp_div_less)
  have r: "r < 2" by (simp add: r_def)
  have e: "calc_d2 bits = of_nat (2 * q + r)"
    by (simp add: calc_d2_def q_def r_def push_bit_eq_mult mult.commute)
  have u: "unat (calc_d2 bits) = 2 * q + r"
    unfolding e unat_of_nat using q r by simp
  have d: "unat (drop_bit 1 (calc_d2 bits)) = q"
    unfolding unat_drop_bit_eq u using r by (simp add: drop_bit_eq_div)
  have a: "unat (calc_d2 bits AND 1) = r"
    unfolding unsigned_and_eq u using r by (auto simp: and_one_eq mod2_eq_if r_def)
  show "drop_bit 1 (calc_d2 bits) = of_nat (bits div 8)"
    using d q by (simp add: word_unat_eq_iff unat_of_nat flip: q_def)
  show "calc_d2 bits AND 1 = (if bits mod 8 \<noteq> 0 then 1 else 0)"
    using a by (simp add: word_unat_eq_iff r_def split: if_splits)
  show "unat (drop_bit 1 (calc_d2 bits)) = bits div 8" using d by (simp add: q_def)
  have "bits_to_bytes bits = q + r" unfolding bits_to_bytes_def q_def r_def by presburger
  moreover have "unat (drop_bit 1 (calc_d2 bits) + (calc_d2 bits AND 1)) = q + r"
    using d a q r by (subst unat_add_lem [THEN iffD1]) simp_all
  ultimately show "unat (drop_bit 1 (calc_d2 bits) + (calc_d2 bits AND 1)) = bits_to_bytes bits" by simp
qed

text \<open>How many hashes a buffer stores.\<close>

definition hash_slots :: "u8 \<Rightarrow> cell_type \<Rightarrow> nat \<Rightarrow> nat" where
  "hash_slots m ct n =
    (if ct \<noteq> Ordinary \<and> n = 0 \<and> level (LevelMask m) \<noteq> 0 then 1 else level (LevelMask m) + 1)"

lemma layout_head:
  assumes "is_valid_mask m" and "n \<le> 4" and "bits < 1024"
    and "buf = [calc_d1 (LevelMask m) st ct n, calc_d2 bits] @ rest"
  shows "buf_level_mask buf = LevelMask m" and "buf_level buf = level (LevelMask m)"
    and "store_hashes buf = st" and "exotic buf \<longleftrightarrow> ct \<noteq> Ordinary" and "refs_count buf = n"
    and "cell_data_len buf = bits_to_bytes bits" and "hashes_count buf = hash_slots m ct n"
    and "data_offset buf = 2 + (if st then hash_slots m ct n * 34 else 0)"
    and "buf ! 1 AND 1 = 0 \<longleftrightarrow> bits mod 8 = 0" and "unat (drop_bit 1 (buf ! 1)) = bits div 8"
proof -
  note f = d1_fields [OF assms(1,2)] and g = d2_fields [OF assms(3)]
  show lm: "buf_level_mask buf = LevelMask m"
    using f(1) assms(1) by (simp add: assms(4) buf_level_mask_def with_mask_def)
  then show lv: "buf_level buf = level (LevelMask m)" by (simp add: buf_level_def)
  show sh: "store_hashes buf = st" using f(2) by (simp add: assms(4) store_hashes_def)
  show ex: "exotic buf \<longleftrightarrow> ct \<noteq> Ordinary" using f(3) by (simp add: assms(4) exotic_def)
  show rc: "refs_count buf = n" using f(5) by (simp add: assms(4) refs_count_def)
  show "cell_data_len buf = bits_to_bytes bits" using g(3) by (simp add: assms(4) cell_data_len_def)
  show hc: "hashes_count buf = hash_slots m ct n" by (simp add: hashes_count_def hash_slots_def ex rc lv)
  show "data_offset buf = 2 + (if st then hash_slots m ct n * 34 else 0)"
    by (simp add: data_offset_def sh hc layout_sizes)
  show "buf ! 1 AND 1 = 0 \<longleftrightarrow> bits mod 8 = 0" using g(2) by (simp add: assms(4))
  show "unat (drop_bit 1 (buf ! 1)) = bits div 8" using g(4) by (simp add: assms(4))
qed

definition tagged :: "bytes \<Rightarrow> nat \<Rightarrow> bool" where
  "tagged data bits \<longleftrightarrow> length data = bits_to_bytes bits \<and> (bits mod 8 \<noteq> 0 \<longrightarrow> find_tag data = bits)"

lemma layout_body:
  assumes "is_valid_mask m" and "n \<le> 4" and "bits < 1024" and "tagged data bits"
    and "buf = [calc_d1 (LevelMask m) st ct n, calc_d2 bits] @ hd' @ data"
    and "length hd' = (if st then hash_slots m ct n * 34 else 0)"
  shows "cell_data buf = data" and "full_len buf = length buf" and "bit_len buf = bits"
proof -
  note h = layout_head [OF assms(1-3), of buf st ct "hd' @ data", OF assms(5)]
  have "drop (data_offset buf) buf = data" unfolding h(8) by (simp add: assms(5,6))
  then show cd: "cell_data buf = data" using assms(4) h(6) by (simp add: cell_data_def tagged_def)
  show "full_len buf = length buf"
    using assms(4,6) h(6,8) by (simp add: full_len_def assms(5) tagged_def)
  show "bit_len buf = bits"
  proof (cases "bits mod 8 = 0")
    case True
    then have "bits div 8 * 8 = bits" by auto
    with True h(9,10) show ?thesis by (simp add: bit_len_def)
  qed (use assms(4) h(9) cd in \<open>simp add: bit_len_def tagged_def\<close>)
qed

lemma tagged_append_tag:
  assumes "bits \<le> 8 * length data"
  shows "tagged (take (bits_to_bytes bits) (append_tag data bits)) bits"
    and "bits_of (take (bits_to_bytes bits) (append_tag data bits)) bits = bits_of data bits"
proof -
  note sp = append_tag_spec [OF assms]
  have le: "bits_to_bytes bits \<le> bits div 8 + 1" by (auto simp: bits_to_bytes_def)
  have "bits_to_bytes bits = bits div 8 + 1" if "bits mod 8 \<noteq> 0"
    using that unfolding bits_to_bytes_def by presburger
  then show "tagged (take (bits_to_bytes bits) (append_tag data bits)) bits"
    using le sp(1) find_tag_append_tag [OF assms] by (auto simp: tagged_def)
  show "bits_of (take (bits_to_bytes bits) (append_tag data bits)) bits = bits_of data bits"
  proof (rule bits_of_eqI)
    fix k assume k: "k < bits"
    have "k < 8 * bits_to_bytes bits" using k bits_to_bytes_le [of bits "bits_to_bytes bits"] by simp
    moreover have "k < 8 * (bits div 8 + 1)"
      using k dividend_less_times_div [of 8 bits] by (simp add: mult.commute)
    ultimately show "getbit (take (bits_to_bytes bits) (append_tag data bits)) k = getbit data k"
      using k sp(2) [of k] by (simp add: getbit_take)
  qed
qed

lemma build_data_plain:
  assumes "bits \<le> 8 * length data" and "bits \<le> MAX_DATA_BITS" and "is_valid_mask m" and "n \<le> 4"
  shows "build_data (append_tag data bits) ct m n None =
    Inr ([calc_d1 (LevelMask m) False ct n, calc_d2 bits] @ take (bits_to_bytes bits) (append_tag data bits))"
proof -
  have b: "bits < 1024" using assms(2) by (simp add: layout_sizes)
  then have "bits div 8 < 128" by (simp add: less_mult_imp_div_less)
  then have "\<not> MAX_DATA_BYTES < length (append_tag data bits)"
    using append_tag_spec(1) [OF assms(1)] by (simp add: layout_sizes)
  moreover have "cell_data_len [calc_d1 (LevelMask m) False ct n, calc_d2 bits] = bits_to_bytes bits"
    by (rule layout_head(6) [OF assms(3,4) b, where st = False and ct = ct and rest = "[]"]) simp
  ultimately show ?thesis
    using assms(3,4) find_tag_append_tag [OF assms(1)]
    by (simp add: build_data_def layout_sizes with_mask_def)
qed

section \<open>Ordinary cells\<close>

lemma children_depth_ok:
  assumes "\<forall>d \<in> set ds. d + 1 \<le> max_depth" and "cur \<le> max_depth"
  shows "\<exists>c. children_depth ds max_depth cur = Inr c"
  using assms by (induction ds arbitrary: cur) (auto simp: Let_def not_less)

lemma compute_level_ok:
  assumes "\<And>r i. r \<in> set refs \<Longrightarrow> snd (cell_hash_depth (cell_buf r) i) + 1 \<le> max_depth"
  shows "\<exists>h d. compute_level sha da db cdata Ordinary None refs max_depth i acc =
    (if i \<noteq> 0 \<and> push_bit (i - 1) 1 AND mask (with_mask (drop_bit 5 da)) = 0 then Inr acc
     else Inr (fst acc @ [sha h], snd acc @ [d]))"
proof -
  obtain c where "children_depth (map snd (map (\<lambda>r. cell_hash_depth (cell_buf r) i) refs)) max_depth 0 = Inr c"
    using children_depth_ok [of "map snd (map (\<lambda>r. cell_hash_depth (cell_buf r) i) refs)" max_depth 0] assms
    by auto
  then show ?thesis by (auto simp: compute_level_def Let_def comp_def)
qed

text \<open>The loop over the levels lists one hash for level 0 and one per bit of the mask.\<close>

lemma compute_levels_ok:
  assumes "is_valid_mask m"
    and "\<And>i acc. \<exists>h d. f i acc =
      (if i \<noteq> 0 \<and> push_bit (i - 1) 1 AND m = 0 then Inr acc else Inr (fst acc @ [sha h], snd acc @ [d]))"
    and "\<And>x. length (sha x) = 32"
  shows "\<exists>hs ds. compute_levels f [0, 1, 2, 3] ([], []) = Inr (hs, ds) \<and>
    length hs = level (LevelMask m) + 1 \<and> length ds = level (LevelMask m) + 1 \<and> (\<forall>h \<in> set hs. length h = 32)"
proof -
  obtain h d where f: "\<And>i acc. f i acc =
      (if i \<noteq> 0 \<and> push_bit (i - 1) 1 AND m = 0 then Inr acc
       else Inr (fst acc @ [sha (h i acc)], snd acc @ [d i acc]))"
    using assms(2) by metis
  show ?thesis
    using assms(1) by (cases rule: valid_mask_cases) (simp_all add: f level_eval assms(3))
qed

lemma length_concat_const: "\<forall>x \<in> set xs. length x = k \<Longrightarrow> length (concat xs) = length xs * k"
  by (induction xs) auto

lemma with_data_and_refs_ordinary:
  assumes "is_valid_mask m" and "length refs \<le> 4" and "bits \<le> MAX_DATA_BITS" and "tagged data bits"
    and "\<And>x. length (sha x) = 32"
    and "\<And>r i. r \<in> set refs \<Longrightarrow> snd (cell_hash_depth (cell_buf r) i) + 1 \<le> max_depth"
  shows "\<exists>hds. with_data_and_refs sha ([calc_d1 (LevelMask m) False Ordinary (length refs), calc_d2 bits] @ data)
      False refs (Some max_depth) =
    Inr (Cell ([calc_d1 (LevelMask m) True Ordinary (length refs), calc_d2 bits] @ hds @ data) refs) \<and>
    length hds = hash_slots m Ordinary (length refs) * 34"
proof -
  let ?n = "length refs"
  let ?d1 = "calc_d1 (LevelMask m) False Ordinary ?n"
  define raw where raw: "raw = [?d1, calc_d2 bits] @ [] @ data"
  have b: "bits < 1024" using assms(3) by (simp add: layout_sizes)
  note hd = layout_head [OF assms(1,2) b raw] and bd = layout_body [OF assms(1,2) b assms(4) raw]
  have bd: "cell_data raw = data" "full_len raw = length raw" "bit_len raw = bits" using bd by simp_all
  have nb: "bits_to_bytes bits \<le> 128" using b by (simp add: bits_to_bytes_le)
  have tag: "last data \<noteq> 0" if nz: "bits mod 8 \<noteq> 0" and ne: "data \<noteq> []"
  proof
    assume "last data = 0"
    then obtain xs where xs: "data = xs @ [0]" using ne by (metis append_butlast_last_id)
    have "find_tag xs \<le> 8 * length xs"
      by (induction xs rule: rev_induct) (auto simp: find_tag_snoc, simp add: find_tag_def)
    moreover have "find_tag xs = bits" using assms(4) nz by (simp add: tagged_def xs find_tag_snoc)
    moreover have "length xs + 1 = bits_to_bytes bits" using assms(4) by (simp add: tagged_def xs)
    ultimately show False using nz by (simp add: bits_to_bytes_def)
  qed
  have chk: "check_data raw False = Inr \<lparr>info_d1 = ?d1, info_d2 = calc_d2 bits, info_data = data, info_bit_len = bits\<rparr>"
  proof -
    have "\<not> length raw < 2" "raw ! 0 = ?d1" "raw ! 1 = calc_d2 bits" by (simp_all add: raw)
    moreover have "\<not> (raw ! 1 AND 1 \<noteq> 0 \<and> 0 < cell_data_len raw \<and> last data = 0)"
      using tag hd(6,9) assms(4) by (cases "data = []") (auto simp: tagged_def)
    ultimately show ?thesis
      using assms(1,2) nb b by (simp add: check_data_def layout_sizes bd hd(1-7))
  qed
  obtain hs ds where hds: "compute_hashes sha ?d1 (calc_d2 bits) data None refs max_depth = Inr (hs, ds)"
      "length hs = level (LevelMask m) + 1" "length ds = level (LevelMask m) + 1" "\<forall>h \<in> set hs. length h = 32"
  proof -
    have m: "mask (with_mask (drop_bit 5 ?d1)) = m"
      using d1_fields(1) [OF assms(1,2), of False Ordinary] assms(1) by (simp add: with_mask_def)
    have lv: "\<exists>h d. compute_level sha ?d1 (calc_d2 bits) data Ordinary None refs max_depth i acc =
        (if i \<noteq> 0 \<and> push_bit (i - 1) 1 AND mask (with_mask (drop_bit 5 ?d1)) = 0 then Inr acc
         else Inr (fst acc @ [sha h], snd acc @ [d]))" for i acc
      by (rule compute_level_ok) (rule assms(6))
    have "?d1 AND 8 = 0" using d1_fields(4) [OF assms(1,2), of False Ordinary] by simp
    then have "compute_hashes sha ?d1 (calc_d2 bits) data None refs max_depth =
        compute_levels (compute_level sha ?d1 (calc_d2 bits) data Ordinary None refs max_depth) [0, 1, 2, 3] ([], [])"
      by (simp only: compute_hashes_def not_True_eq_False not_not if_False sum.case simp_thms)
    with compute_levels_ok [OF assms(1) lv [unfolded m] assms(5)] that show ?thesis by (elim exE conjE) simp
  qed
  have "length (concat hs @ concat (map (to_be_bytes 2) ds)) = hash_slots m Ordinary ?n * 34"
    using hds(2-4) length_concat_const [of hs 32] length_concat_const [of "map (to_be_bytes 2) ds" 2]
    by (simp add: hash_slots_def)
  moreover have "with_data_and_refs sha raw False refs (Some max_depth) =
      Inr (Cell ([calc_d1 (LevelMask m) True Ordinary ?n, calc_d2 bits] @
        (concat hs @ concat (map (to_be_bytes 2) ds)) @ data) refs)"
    using hd hds(1) d1_fields(1-5) [OF assms(1,2), of False Ordinary] d1_fields(6) [OF assms(1,2), of Ordinary] assms(1)
    by (simp add: with_data_and_refs_def chk Let_def with_mask_def)
  ultimately show ?thesis unfolding raw by auto
qed

end
