(* ===== verification/Builder_Data.thy ===== *)
theory Builder_Data
  imports Cell_Layout
begin

text \<open>
  Building cells (\<^verbatim>\<open>src/block/src/cell/builder.rs\<close> and \<^verbatim>\<open>builder_operations.rs\<close>).  A builder keeps a
  bit string as bytes and a length, and appends to it by shifting bytes in place; the theory
  shows that the byte-wise routine appends bits, that every operation keeps the bounds of a cell,
  and that finalizing an ordinary builder gives a cell with its bits and references.
\<close>

section \<open>Data\<close>

record builder_data =
  bd_data :: bytes
  bd_length_in_bits :: nat
  bd_references :: "cell list"
  bd_cell_type :: cell_type

definition builder_new :: builder_data where
  "builder_new = \<lparr>bd_data = [], bd_length_in_bits = 0, bd_references = [], bd_cell_type = Ordinary\<rparr>"

section \<open>Appending bits\<close>

text \<open>\<^verbatim>\<open>push\<close> extends the data by at most the bytes the bits need; the caller then writes through
  the part of the buffer that starts at the byte of the old length.\<close>

definition push_raw :: "bytes \<Rightarrow> nat \<Rightarrow> bytes \<times> nat \<Rightarrow> bytes \<times> nat" where
  "push_raw src bits d = (fst d @ take (min (length src) (bits_to_bytes bits)) src, snd d + bits)"

text \<open>One turn of the loop that combines adjacent bytes in place.\<close>

definition shift_step :: "nat \<Rightarrow> nat \<Rightarrow> nat \<Rightarrow> 16 word \<times> bytes \<Rightarrow> 16 word \<times> bytes" where
  "shift_step offset shift i xd =
    (let x = push_bit 8 (fst xd) OR ucast (snd xd ! (offset + i + 1))
     in (x, (snd xd)[offset + i := ucast (drop_bit shift x)]))"

definition append_unaligned :: "bytes \<Rightarrow> nat \<Rightarrow> bytes \<times> nat \<Rightarrow> bytes \<times> nat" where
  "append_unaligned src bits0 d =
    (let dst_len = snd d; full_bytes = bits0 div 8; shift = dst_len mod 8; offset = dst_len div 8;
         data1 = take (1 + dst_len div 8) (fst d);
         bits = bits0 - full_bytes * 8; last_shift = shift + bits;
         d2 = push_raw (take full_bytes src)
                (if last_shift \<le> 8 then full_bytes * 8 + bits else full_bytes * 8) (data1, dst_len);
         x0 = drop_bit (8 - shift) (ucast (fst d2 ! offset));
         xd = fold (shift_step offset shift) [0..<full_bytes] (x0, fst d2);
         x1 = push_bit 8 (fst xd);
         x2 = (if 0 < bits then x1 OR ucast (src ! full_bytes) else x1);
         data3 = (snd xd)[offset + full_bytes := ucast (drop_bit shift x2)]
     in if last_shift \<noteq> 8 then
          let mask = push_bit (8 - last_shift mod 8) (0xFF :: u8)
          in if last_shift < 8
             then (data3[offset + full_bytes := data3 ! (offset + full_bytes) AND mask], snd d2)
             else push_raw [ucast (push_bit (8 - shift) x2 AND ucast mask)] bits (data3, snd d2)
        else (data3, snd d2))"

definition append_aligned :: "bytes \<Rightarrow> nat \<Rightarrow> bytes \<times> nat \<Rightarrow> bytes \<times> nat" where
  "append_aligned src bits0 d =
    (let dst_len = snd d; full_bytes = bits0 div 8; offset = dst_len div 8;
         data1 = take (dst_len div 8) (fst d);
         d2 = push_raw src bits0 (data1, dst_len);
         bits = bits0 - full_bytes * 8
     in if 0 < bits
        then ((fst d2)[offset + full_bytes := fst d2 ! (offset + full_bytes) AND push_bit (8 - bits) (0xFF :: u8)],
              snd d2)
        else d2)"

definition append_raw_data ::
  "bytes \<Rightarrow> nat \<Rightarrow> nat option \<Rightarrow> bytes \<times> nat \<Rightarrow> cell_error + bytes \<times> nat" where
  "append_raw_data src bits capacity d =
    (if bits = 0 then Inr d
     else if length src * 8 < bits then Inl (Exception FatalError)
     else if (case capacity of Some c \<Rightarrow> c < snd d + bits | None \<Rightarrow> False) then Inl (Exception CellOverflow)
     else if 0 < snd d mod 8 then Inr (append_unaligned src bits d)
     else Inr (append_aligned src bits d))"

section \<open>Builder operations\<close>

text \<open>Subtraction of \<^verbatim>\<open>usize\<close> values wraps in the release build.\<close>

definition usize_sub :: "nat \<Rightarrow> nat \<Rightarrow> nat" where
  "usize_sub a b = (if b \<le> a then a - b else 2 ^ 64 + a - b)"

definition references_used :: "builder_data \<Rightarrow> nat" where
  "references_used b = length (bd_references b)"

definition references_free :: "builder_data \<Rightarrow> nat" where
  "references_free b = usize_sub MAX_REFERENCES_COUNT (length (bd_references b))"

definition bits_free :: "builder_data \<Rightarrow> nat" where
  "bits_free b = usize_sub MAX_DATA_BITS (bd_length_in_bits b)"

definition check_enough_refs :: "builder_data \<Rightarrow> nat \<Rightarrow> bool" where
  "check_enough_refs b count = (length (bd_references b) + count \<le> MAX_REFERENCES_COUNT)"

definition check_enough_space :: "builder_data \<Rightarrow> nat \<Rightarrow> bool" where
  "check_enough_space b sz = (bd_length_in_bits b + sz \<le> MAX_DATA_BITS)"

definition can_append :: "builder_data \<Rightarrow> builder_data \<Rightarrow> bool" where
  "can_append b x = (bd_length_in_bits x \<le> bits_free b \<and> references_used x \<le> references_free b)"

definition builder_is_empty :: "builder_data \<Rightarrow> bool" where
  "builder_is_empty b = (bd_length_in_bits b = 0 \<and> bd_references b = [])"

definition with_raw :: "bytes \<Rightarrow> nat \<Rightarrow> cell_error + builder_data" where
  "with_raw data length_in_bits =
    (if length data * 8 < length_in_bits then Inl (Exception FatalError)
     else if MAX_DATA_BITS < length_in_bits then Inl (Exception CellOverflow)
     else
       let data_shift = length_in_bits mod 8;
           data' = (if data_shift = 0 then take (length_in_bits div 8) data
             else let d = take (1 + length_in_bits div 8) data
                  in if d = [] then [] else butlast d @ [push_bit (8 - data_shift) (drop_bit (8 - data_shift) (last d))])
       in Inr \<lparr>bd_data = data', bd_length_in_bits = length_in_bits, bd_references = [], bd_cell_type = Ordinary\<rparr>)"

definition with_raw_and_refs :: "bytes \<Rightarrow> nat \<Rightarrow> cell list \<Rightarrow> cell_error + builder_data" where
  "with_raw_and_refs data length_in_bits refs =
    (case with_raw data length_in_bits of Inl e \<Rightarrow> Inl e | Inr b \<Rightarrow> Inr (b\<lparr>bd_references := refs\<rparr>))"

definition with_bytes :: "bytes \<Rightarrow> cell_error + builder_data" where
  "with_bytes data =
    (if data = [] then Inr builder_new
     else if MAX_DATA_BITS < length data * 8 then Inl (Exception CellOverflow)
     else with_raw data (length data * 8))"

definition with_bitstring :: "bytes \<Rightarrow> cell_error + builder_data" where
  "with_bitstring data =
    (let length_in_bits = find_tag data in
     if length_in_bits = 0 then Inr builder_new
     else if length data * 8 < length_in_bits then Inl (Exception FatalError)
     else if MAX_DATA_BITS < length_in_bits then Inl (Exception CellOverflow)
     else with_raw data length_in_bits)"

definition with_ref :: "cell \<Rightarrow> builder_data" where
  "with_ref c = builder_new\<lparr>bd_references := [c]\<rparr>"

definition from_cell :: "cell \<Rightarrow> cell_error + builder_data" where
  "from_cell c =
    (case with_raw (cell_data (cell_buf c)) (bit_len (cell_buf c)) of
       Inl e \<Rightarrow> Inl e
     | Inr b \<Rightarrow> Inr (b\<lparr>bd_references := cell_references c, bd_cell_type := buf_cell_type (cell_buf c)\<rparr>))"

definition append_raw :: "bytes \<Rightarrow> nat \<Rightarrow> builder_data \<Rightarrow> cell_error + builder_data" where
  "append_raw src bits b =
    (case append_raw_data src bits (Some MAX_DATA_BITS) (bd_data b, bd_length_in_bits b) of
       Inl e \<Rightarrow> Inl e
     | Inr (data, len) \<Rightarrow> Inr (b\<lparr>bd_data := data, bd_length_in_bits := len\<rparr>))"

definition prepend_raw :: "bytes \<Rightarrow> nat \<Rightarrow> builder_data \<Rightarrow> cell_error + builder_data" where
  "prepend_raw src bits b =
    (if bits = 0 then Inr b
     else case with_raw src bits of
       Inl e \<Rightarrow> Inl e
     | Inr buffer \<Rightarrow>
         (case append_raw (bd_data b) (bd_length_in_bits b) buffer of
            Inl e \<Rightarrow> Inl e
          | Inr buffer' \<Rightarrow> Inr (b\<lparr>bd_data := bd_data buffer', bd_length_in_bits := bd_length_in_bits buffer'\<rparr>)))"

definition checked_append_reference :: "cell \<Rightarrow> builder_data \<Rightarrow> cell_error + builder_data" where
  "checked_append_reference c b =
    (if references_free b = 0 then Inl (Exception CellOverflow)
     else Inr (b\<lparr>bd_references := bd_references b @ [c]\<rparr>))"

definition checked_prepend_reference :: "cell \<Rightarrow> builder_data \<Rightarrow> cell_error + builder_data" where
  "checked_prepend_reference c b =
    (if references_free b = 0 then Inl (Exception CellOverflow)
     else Inr (b\<lparr>bd_references := c # bd_references b\<rparr>))"

definition replace_data :: "bytes \<Rightarrow> nat \<Rightarrow> builder_data \<Rightarrow> builder_data" where
  "replace_data data length_in_bits b =
    b\<lparr>bd_length_in_bits := min (min length_in_bits MAX_DATA_BITS) (length data * 8), bd_data := data\<rparr>"

definition replace_reference_cell :: "nat \<Rightarrow> cell \<Rightarrow> builder_data \<Rightarrow> builder_data" where
  "replace_reference_cell index child b =
    (if index < length (bd_references b) then b\<lparr>bd_references := (bd_references b)[index := child]\<rparr> else b)"

definition trunc :: "nat \<Rightarrow> builder_data \<Rightarrow> cell_error + builder_data" where
  "trunc length_in_bits b =
    (if bd_length_in_bits b < length_in_bits then Inl (Exception FatalError)
     else Inr (b\<lparr>bd_length_in_bits := length_in_bits, bd_data := take (1 + length_in_bits div 8) (bd_data b)\<rparr>))"

fun append_references :: "cell list \<Rightarrow> builder_data \<Rightarrow> cell_error + builder_data" where
  "append_references [] b = Inr b"
| "append_references (c # cs) b =
    (case checked_append_reference c b of Inl e \<Rightarrow> Inl e | Inr b' \<Rightarrow> append_references cs b')"

definition append_builder :: "builder_data \<Rightarrow> builder_data \<Rightarrow> cell_error + builder_data" where
  "append_builder data b =
    (if builder_is_empty b then Inr data
     else if can_append b data then
       (case append_raw (bd_data data) (bd_length_in_bits data) b of
          Inl e \<Rightarrow> Inl e | Inr b' \<Rightarrow> append_references (bd_references data) b')
     else Inl (Exception CellOverflow))"

definition prepend_builder :: "builder_data \<Rightarrow> builder_data \<Rightarrow> cell_error + builder_data" where
  "prepend_builder data b = prepend_raw (bd_data data) (bd_length_in_bits data) b"

definition append_bitstring :: "bytes \<Rightarrow> builder_data \<Rightarrow> cell_error + builder_data" where
  "append_bitstring data b = append_raw data (find_tag data) b"

definition prepend_bitstring :: "bytes \<Rightarrow> builder_data \<Rightarrow> cell_error + builder_data" where
  "prepend_bitstring data b = prepend_raw data (find_tag data) b"

definition append_bit_zero :: "builder_data \<Rightarrow> cell_error + builder_data" where
  "append_bit_zero b = append_raw [0x00] 1 b"

definition append_bit_one :: "builder_data \<Rightarrow> cell_error + builder_data" where
  "append_bit_one b = append_raw [0xFF] 1 b"

definition append_bit_bool :: "bool \<Rightarrow> builder_data \<Rightarrow> cell_error + builder_data" where
  "append_bit_bool bt b = (if bt then append_raw [0xFF] 1 b else append_raw [0x00] 1 b)"

definition append_bits :: "u64 \<Rightarrow> nat \<Rightarrow> builder_data \<Rightarrow> cell_error + builder_data" where
  "append_bits val bits b =
    (if bits = 0 then Inr b
     else if bits \<le> 7 then append_raw (to_be_bytes 1 (push_bit (8 - bits) (ucast val :: 8 word))) bits b
     else if bits \<le> 15 then append_raw (to_be_bytes 2 (push_bit (16 - bits) (ucast val :: 16 word))) bits b
     else if bits \<le> 31 then append_raw (to_be_bytes 4 (push_bit (32 - bits) (ucast val :: 32 word))) bits b
     else if bits \<le> 63 then append_raw (to_be_bytes 8 (push_bit (64 - bits) val)) bits b
     else Inl Message)"

definition append_u8 :: "u8 \<Rightarrow> builder_data \<Rightarrow> cell_error + builder_data" where
  "append_u8 val b = append_raw [val] 8 b"

definition append_u16 :: "16 word \<Rightarrow> builder_data \<Rightarrow> cell_error + builder_data" where
  "append_u16 val b = append_raw (to_be_bytes 2 val) 16 b"

definition append_u32 :: "32 word \<Rightarrow> builder_data \<Rightarrow> cell_error + builder_data" where
  "append_u32 val b = append_raw (to_be_bytes 4 val) 32 b"

definition append_u64 :: "u64 \<Rightarrow> builder_data \<Rightarrow> cell_error + builder_data" where
  "append_u64 val b = append_raw (to_be_bytes 8 val) 64 b"

definition append_u128 :: "128 word \<Rightarrow> builder_data \<Rightarrow> cell_error + builder_data" where
  "append_u128 val b = append_raw (to_be_bytes 16 val) 128 b"

definition append_u256 :: "bytes \<Rightarrow> builder_data \<Rightarrow> cell_error + builder_data" where
  "append_u256 val b = append_raw val 256 b"

text \<open>The signed variants write the two's complement bytes of the value.\<close>

definition append_i8 :: "8 word \<Rightarrow> builder_data \<Rightarrow> cell_error + builder_data" where
  "append_i8 val b = append_raw [val] 8 b"

definition append_i16 :: "16 word \<Rightarrow> builder_data \<Rightarrow> cell_error + builder_data" where
  "append_i16 val b = append_raw (to_be_bytes 2 val) 16 b"

definition append_i32 :: "32 word \<Rightarrow> builder_data \<Rightarrow> cell_error + builder_data" where
  "append_i32 val b = append_raw (to_be_bytes 4 val) 32 b"

definition append_i64 :: "64 word \<Rightarrow> builder_data \<Rightarrow> cell_error + builder_data" where
  "append_i64 val b = append_raw (to_be_bytes 8 val) 64 b"

definition append_i128 :: "128 word \<Rightarrow> builder_data \<Rightarrow> cell_error + builder_data" where
  "append_i128 val b = append_raw (to_be_bytes 16 val) 128 b"

text \<open>A \<^verbatim>\<open>Bitstring\<close> is a bit string without a bound on its length.\<close>

definition bitstring_append_raw :: "bytes \<Rightarrow> nat \<Rightarrow> bytes \<times> nat \<Rightarrow> cell_error + bytes \<times> nat" where
  "bitstring_append_raw src bits d = append_raw_data src bits None d"

definition set_type :: "cell_type \<Rightarrow> builder_data \<Rightarrow> builder_data" where
  "set_type ct b = b\<lparr>bd_cell_type := ct\<rparr>"

definition finalize ::
  "(bytes \<Rightarrow> bytes) \<Rightarrow> 16 word \<Rightarrow> builder_data \<Rightarrow> cell_error + cell" where
  "finalize sha max_depth b =
    (let children = fold (\<lambda>r lm. LevelMask (mask lm OR mask (buf_level_mask (cell_buf r)))) (bd_references b) (with_level 0);
         hash0 = (\<lambda>i. fst (cell_hash_depth (cell_buf (bd_references b ! i)) 0));
         lm = (case bd_cell_type b of
             Unknown \<Rightarrow> None
           | Ordinary \<Rightarrow> Some children
           | PrunedBranch \<Rightarrow> if bd_length_in_bits b < 16 then None else Some (with_mask (bd_data b ! 1))
           | LibraryReference \<Rightarrow> Some (with_level 0)
           | MerkleProof \<Rightarrow>
               if length (bd_references b) \<noteq> 1 \<or> length (bd_data b) < 33 \<or> hash0 0 \<noteq> take 32 (drop 1 (bd_data b))
               then None else Some (virtualize children 1)
           | MerkleUpdate \<Rightarrow>
               if length (bd_references b) \<noteq> 2 \<or> length (bd_data b) < 65 \<or> hash0 0 \<noteq> take 32 (drop 1 (bd_data b)) \<or>
                  hash0 1 \<noteq> take 32 (drop 33 (bd_data b))
               then None else Some (virtualize children 1))
     in case lm of
          None \<Rightarrow> Inl Message
        | Some m \<Rightarrow>
            (case build_data (append_tag (bd_data b) (bd_length_in_bits b)) (bd_cell_type b) (mask m)
                    (length (bd_references b)) None of
               Inl e \<Rightarrow> Inl e
             | Inr buf \<Rightarrow> with_data_and_refs sha buf False (bd_references b) (Some max_depth)))"

definition into_cell :: "(bytes \<Rightarrow> bytes) \<Rightarrow> builder_data \<Rightarrow> cell_error + cell" where
  "into_cell sha b = finalize sha 2048 b"

section \<open>The loop\<close>

text \<open>The low byte of the accumulator before turn \<open>n\<close>: the top bits of the last old byte, then the
  bytes of the source.\<close>

definition carry :: "u8 \<Rightarrow> nat \<Rightarrow> bytes \<Rightarrow> nat \<Rightarrow> nat \<Rightarrow> bool" where
  "carry d0 shift src n j =
    (if n = 0 then j < shift \<and> bit d0 (8 - shift + j) else bit (src ! (n - 1)) j)"

lemma bit_mask_8 [simp]: "bit (0xFF :: u8) j \<longleftrightarrow> j < 8"
proof -
  have "(0xFF :: u8) = - 1" by simp
  then show ?thesis by (simp only: bit_minus_1_iff) simp
qed

lemma bit_255 [simp]: "bit (255 :: int) j \<longleftrightarrow> j < 8"
proof -
  have "(255 :: int) = Bit_Operations.mask 8" by (simp add: mask_eq_exp_minus_1)
  then show ?thesis by (simp only: bit_mask_iff) simp
qed

lemma shift_loop:
  assumes "shift < 8" and "offset + full < length d" and "full \<le> length src"
    and "\<And>i. i < full \<Longrightarrow> d ! (offset + i + 1) = src ! i"
    and "d ! offset = d0"
  shows "n \<le> full \<Longrightarrow>
    (let r = fold (shift_step offset shift) [0..<n] (drop_bit (8 - shift) (ucast d0), d)
     in (\<forall>j < 8. bit (fst r) j = carry d0 shift src n j) \<and> length (snd r) = length d \<and>
        (\<forall>i < n. \<forall>b < 8. bit (snd r ! (offset + i)) b =
           (if b + shift < 8 then bit (src ! i) (b + shift) else carry d0 shift src i (b + shift - 8))) \<and>
        (\<forall>k < length d. k < offset \<or> offset + n \<le> k \<longrightarrow> snd r ! k = d ! k))"
proof (induction n)
  case 0
  then show ?case
    using assms(1) by (auto simp: carry_def bit_drop_bit_eq bit_ucast_iff dest: bit_imp_le_length)
next
  case (Suc n)
  define r where "r = fold (shift_step offset shift) [0..<n] (drop_bit (8 - shift) (ucast d0 :: 16 word), d)"
  from Suc have IH: "\<forall>j < 8. bit (fst r) j = carry d0 shift src n j" "length (snd r) = length d"
      "\<forall>i < n. \<forall>b < 8. bit (snd r ! (offset + i)) b =
         (if b + shift < 8 then bit (src ! i) (b + shift) else carry d0 shift src i (b + shift - 8))"
      "\<forall>k < length d. k < offset \<or> offset + n \<le> k \<longrightarrow> snd r ! k = d ! k"
    by (simp_all add: r_def Let_def)
  have s: "snd r ! (offset + n + 1) = src ! n"
    using IH(4) Suc.prems assms(2,4) by simp
  define x where "x = push_bit 8 (fst r) OR (ucast (src ! n) :: 16 word)"
  have step: "fold (shift_step offset shift) [0..<Suc n] (drop_bit (8 - shift) (ucast d0), d) =
      (x, (snd r)[offset + n := ucast (drop_bit shift x)])"
    using s by (simp add: r_def [symmetric] shift_step_def x_def Let_def)
  have "\<forall>j < 8. bit x j = carry d0 shift src (Suc n) j"
    by (auto simp: x_def carry_def bit_or_iff bit_push_bit_iff bit_ucast_iff)
  moreover have out: "bit (ucast (drop_bit shift x) :: u8) b =
      (if b + shift < 8 then bit (src ! n) (b + shift) else carry d0 shift src n (b + shift - 8))" if "b < 8" for b
    using that assms(1) IH(1)
    by (auto simp: x_def bit_or_iff bit_push_bit_iff bit_ucast_iff bit_drop_bit_eq add.commute
        dest: bit_imp_le_length)
  moreover have "bit ((snd r)[offset + n := ucast (drop_bit shift x)] ! (offset + i)) b =
      (if b + shift < 8 then bit (src ! i) (b + shift) else carry d0 shift src i (b + shift - 8))"
    if "i < Suc n" "b < 8" for i b
  proof (cases "i = n")
    case True
    with that(2) IH(2) Suc.prems assms(2) out [OF that(2)] show ?thesis by simp
  next
    case False
    with that IH(3) show ?thesis by simp
  qed
  moreover have "(snd r)[offset + n := ucast (drop_bit shift x)] ! k = d ! k"
    if "k < length d" "k < offset \<or> offset + Suc n \<le> k" for k
    using that IH(4) by auto
  ultimately show ?case
    unfolding step Let_def fst_conv snd_conv using IH(2) by simp
qed

section \<open>Appending appends\<close>

text \<open>What an append of \<open>bits\<close> bits of \<open>src\<close> to \<open>len\<close> bits of \<open>data\<close> has to leave: the old bits, then
  the new ones, zeros up to the end of the last byte, and no byte more.\<close>

definition appended :: "bytes \<Rightarrow> nat \<Rightarrow> bytes \<Rightarrow> nat \<Rightarrow> bytes \<times> nat \<Rightarrow> bool" where
  "appended data len src bits d \<longleftrightarrow>
     snd d = len + bits \<and> length (fst d) = bits_to_bytes (len + bits) \<and>
     (\<forall>k < len. getbit (fst d) k = getbit data k) \<and>
     (\<forall>k < bits. getbit (fst d) (len + k) = getbit src k) \<and>
     (\<forall>k < 8 * length (fst d). len + bits \<le> k \<longrightarrow> \<not> getbit (fst d) k)"

text \<open>Byte \<open>i\<close> of the written part, at bit \<open>r\<close> from the left.\<close>

definition merged :: "bytes \<Rightarrow> nat \<Rightarrow> bytes \<Rightarrow> nat \<Rightarrow> bool" where
  "merged data len src q =
    (if q < len mod 8 then getbit data (8 * (len div 8) + q) else getbit src (q - len mod 8))"

lemma carry_merged:
  assumes "r < len mod 8"
  shows "carry (data ! (len div 8)) (len mod 8) src i (len mod 8 - 1 - r) = merged data len src (8 * i + r)"
proof (cases i)
  case 0
  with assms show ?thesis by (simp add: carry_def merged_def getbit_def)
next
  case (Suc j)
  define t where "t = 8 + r - len mod 8"
  have lt: "len mod 8 < 8" by simp
  with assms have t: "t < 8" unfolding t_def by linarith
  have eq: "8 * i + r - len mod 8 = 8 * j + t" using Suc lt unfolding t_def by linarith
  have "(8 * i + r - len mod 8) div 8 = j" "(8 * i + r - len mod 8) mod 8 = 8 + r - len mod 8"
    unfolding eq t_def [symmetric] using t by simp_all
  moreover have "7 - (8 + r - len mod 8) = len mod 8 - 1 - r" "\<not> 8 * i + r < len mod 8"
    using assms lt Suc by linarith+
  ultimately show ?thesis using Suc by (simp add: carry_def merged_def getbit_def)
qed

lemma src_merged:
  assumes "len mod 8 \<le> r" and "r < 8"
  shows "bit (src ! i) (7 - r + len mod 8) = merged data len src (8 * i + r)"
proof -
  have t: "r - len mod 8 < 8" using assms(2) by linarith
  have eq: "8 * i + r - len mod 8 = 8 * i + (r - len mod 8)" using assms(1) by linarith
  have "(8 * i + r - len mod 8) div 8 = i" "(8 * i + r - len mod 8) mod 8 = r - len mod 8"
    unfolding eq using t by simp_all
  moreover have "7 - (r - len mod 8) = 7 - r + len mod 8" "\<not> 8 * i + r < len mod 8"
    using assms by linarith+
  ultimately show ?thesis by (simp add: merged_def getbit_def)
qed

lemma appendedI:
  assumes "snd d = len + bits" and "length (fst d) = bits_to_bytes (len + bits)"
    and "\<And>k. k < len div 8 \<Longrightarrow> fst d ! k = data ! k"
    and "\<And>i r. r < 8 \<Longrightarrow> len div 8 + i < length (fst d) \<Longrightarrow>
      bit (fst d ! (len div 8 + i)) (7 - r) \<longleftrightarrow> 8 * i + r < len mod 8 + bits \<and> merged data len src (8 * i + r)"
  shows "appended data len src bits d"
proof -
  let ?o = "len div 8"
  have at: "getbit (fst d) (8 * ?o + q) \<longleftrightarrow> q < len mod 8 + bits \<and> merged data len src q"
    if "?o + q div 8 < length (fst d)" for q
    using assms(4) [of "q mod 8" "q div 8"] that by (simp add: getbit_def)
  have len: "len = 8 * ?o + len mod 8" by simp
  have inside: "?o + q div 8 < length (fst d)" if "q < len mod 8 + bits" for q
  proof -
    from that have "8 * ?o + q < len + bits" using len by linarith
    from bits_to_bytes_bound [OF this] show ?thesis by (simp add: assms(2))
  qed
  show ?thesis
    unfolding appended_def
  proof (intro conjI allI impI)
    fix k assume k: "k < len"
    show "getbit (fst d) k = getbit data k"
    proof (cases "k < 8 * ?o")
      case True
      then show ?thesis using assms(3) [of "k div 8"] by (simp add: getbit_def less_mult_imp_div_less mult.commute)
    next
      case False
      then obtain q where q: "k = 8 * ?o + q" by (metis le_add_diff_inverse not_less)
      with k have "q < len mod 8" using len by linarith
      with at [OF inside, of q] show ?thesis by (simp add: q merged_def)
    qed
  next
    fix k assume "k < bits"
    then have "getbit (fst d) (8 * ?o + (len mod 8 + k)) = getbit src k"
      using at [OF inside, of "len mod 8 + k"] by (simp add: merged_def)
    moreover have "8 * ?o + (len mod 8 + k) = len + k" by simp
    ultimately show "getbit (fst d) (len + k) = getbit src k" by (simp only:)
  next
    fix k assume k: "k < 8 * length (fst d)" "len + bits \<le> k"
    define q where "q = k - 8 * ?o"
    have q: "k = 8 * ?o + q" "len mod 8 + bits \<le> q" using k(2) len unfolding q_def by linarith+
    with k(1) have "?o + q div 8 < length (fst d)" by simp
    with at [of q] q show "\<not> getbit (fst d) k" by simp
  qed (use assms in simp_all)
qed


lemma bits_to_bytes_div: "bits_to_bytes n = n div 8 + (if n mod 8 = 0 then 0 else 1)"
  unfolding bits_to_bytes_def by (simp add: mod_eq_0_iff_dvd) presburger

lemma keep_top_bits:
  assumes "0 < b" and "b < 8" and "r < 8"
  shows "bit (w AND push_bit (8 - b) (0xFF :: u8)) (7 - r) \<longleftrightarrow> bit w (7 - r) \<and> r < b"
  using assms by (auto simp: bit_and_iff bit_push_bit_iff)

lemma append_aligned_appended:
  assumes al: "len mod 8 = 0" and len: "len \<le> 8 * length data" and src: "bits \<le> 8 * length src" and "0 < bits"
  shows "appended data len src bits (append_aligned src bits (data, len))"
proof (rule appendedI)
  let ?o = "len div 8" and ?f = "bits div 8" and ?b = "bits mod 8"
  let ?d = "take ?o data @ take (bits_to_bytes bits) src"
  let ?r = "append_aligned src bits (data, len)"
  have bsrc: "bits_to_bytes bits \<le> length src" using src by (simp add: bits_to_bytes_le)
  have lo: "?o \<le> length data" using len al by auto
  have b: "bits - ?f * 8 = ?b" by (simp add: minus_div_mult_eq_mod)
  have r: "?r = (if 0 < ?b then ?d[?o + ?f := ?d ! (?o + ?f) AND push_bit (8 - ?b) 0xFF] else ?d, len + bits)"
    using bsrc by (simp add: append_aligned_def push_raw_def Let_def b del: zero_less_diff)
  show "snd ?r = len + bits" by (simp add: r)
  have "bits_to_bytes (len + bits) = ?o + bits_to_bytes bits"
    using al by (auto simp: bits_to_bytes_def elim!: dvdE simp: mod_eq_0_iff_dvd)
  then show "length (fst ?r) = bits_to_bytes (len + bits)" using lo bsrc by (simp add: r)
  show "fst ?r ! k = data ! k" if "k < ?o" for k
    using that lo by (auto simp: r nth_append)
  fix i t :: nat assume t: "t < 8" and "?o + i < length (fst ?r)"
  then have i: "i < bits_to_bytes bits" using lo bsrc by (auto simp: r split: if_splits)
  have m: "merged data len src (8 * i + t) = bit (src ! i) (7 - t)"
    using al t by (simp add: merged_def getbit_def)
  have d: "?d ! (?o + j) = src ! j" if "j < bits_to_bytes bits" for j
    using lo that bsrc by (simp add: nth_append)
  show "bit (fst ?r ! (?o + i)) (7 - t) \<longleftrightarrow> 8 * i + t < len mod 8 + bits \<and> merged data len src (8 * i + t)"
  proof (cases "i = ?f")
    case True
    with i have "0 < ?b" by (auto simp: bits_to_bytes_div split: if_splits)
    moreover have "8 * ?f + t < bits \<longleftrightarrow> t < ?b" by (metis add_less_cancel_left mult_div_mod_eq)
    ultimately show ?thesis
      using True i d [OF i] lo bsrc keep_top_bits [of ?b t "src ! ?f"] t al m
      by (auto simp: r)
  next
    case False
    with i have "i < ?f" by (auto simp: bits_to_bytes_div split: if_splits)
    then have "8 * i + t < bits" using t by linarith
    with False d [OF i] m al show ?thesis by (auto simp: r)
  qed
qed


text \<open>The last byte of the combined part and the byte it may overflow into.\<close>

lemma last_byte:
  fixes x :: "16 word"
  assumes "0 < len mod 8" and "\<forall>j < 8. bit x j = carry (data ! (len div 8)) (len mod 8) src f j"
    and "r < 8" and "y = (if 0 < b then push_bit 8 x OR ucast (src ! f) else push_bit 8 x)"
  shows "bit (ucast (drop_bit (len mod 8) y) :: u8) (7 - r) \<longleftrightarrow>
    (r < len mod 8 \<or> (0::nat) < b) \<and> merged data len src (8 * f + r)"
proof (cases "r < len mod 8")
  case True
  define j where "j = len mod 8 - 1 - r"
  have j: "7 - r + len mod 8 = 8 + j" "j < 8" using True assms(3) unfolding j_def by auto
  have "bit y (8 + j) = bit x j"
    using j(2) assms(4) by (auto simp: bit_or_iff bit_push_bit_iff bit_ucast_iff dest: bit_imp_le_length)
  then show ?thesis
    using True j assms(2) carry_merged [OF True, of data src f, folded j_def]
    by (auto simp: bit_ucast_iff bit_drop_bit_eq add.commute)
next
  case False
  then have le: "len mod 8 \<le> r" by simp
  have "bit y (7 - r + len mod 8) \<longleftrightarrow> 0 < b \<and> bit (src ! f) (7 - r + len mod 8)"
    using le assms(3,4) by (auto simp: bit_or_iff bit_push_bit_iff bit_ucast_iff)
  then show ?thesis
    using False assms(3) src_merged [OF le assms(3), of src f data]
    by (auto simp: bit_ucast_iff bit_drop_bit_eq add.commute)
qed

lemma overflow_byte:
  fixes x :: "16 word"
  assumes "0 < b" and "b < 8" and "8 < len mod 8 + b" and "r < 8"
  shows "bit (ucast (push_bit (8 - len mod 8) (push_bit 8 x OR ucast (src ! f)) AND
      ucast (push_bit (8 - (len mod 8 + b) mod 8) (0xFF :: u8))) :: u8) (7 - r) \<longleftrightarrow>
    r < len mod 8 + b - 8 \<and> merged data len src (8 * Suc f + r)"
proof -
  have m: "len mod 8 < 8" by simp
  have t: "(len mod 8 + b) mod 8 = len mod 8 + b - 8" using assms m by (simp add: mod_if)
  have "bit (push_bit (8 - (len mod 8 + b) mod 8) (0xFF :: u8)) (7 - r) \<longleftrightarrow> r < len mod 8 + b - 8"
    unfolding t using assms m by (auto simp: bit_push_bit_iff)
  moreover have "bit (push_bit (8 - len mod 8) (push_bit 8 x OR ucast (src ! f))) (7 - r) =
      bit (src ! f) (len mod 8 - 1 - r)" if "r < len mod 8"
  proof -
    have "7 - r - (8 - len mod 8) = len mod 8 - 1 - r" "8 - len mod 8 \<le> 7 - r" "len mod 8 - 1 - r < 8"
      "\<not> 16 - len mod 8 \<le> 7 - r" "7 - r < 16"
      using that m by linarith+
    then show ?thesis by (simp add: bit_or_iff bit_push_bit_iff bit_ucast_iff)
  qed
  moreover have "bit (src ! f) (len mod 8 - 1 - r) = merged data len src (8 * Suc f + r)" if "r < len mod 8"
    using carry_merged [OF that, of data src "Suc f"] by (simp add: carry_def)
  ultimately show ?thesis
    using assms m by (auto simp: bit_and_iff bit_ucast_iff)
qed


lemma append_unaligned_appended:
  assumes un: "0 < len mod 8" and len: "len \<le> 8 * length data" and src: "bits \<le> 8 * length src"
  shows "appended data len src bits (append_unaligned src bits (data, len))"
proof (rule appendedI)
  define o' m f b where defs: "o' = len div 8" "m = len mod 8" "f = bits div 8" "b = bits mod 8"
  note fold = defs [symmetric]
  have len_eq: "len = 8 * o' + m" and bits_eq: "bits = 8 * f + b" and m8: "m < 8" and b8: "b < 8"
    by (simp_all add: defs)
  have m0: "0 < m" using un by (simp add: defs)
  let ?ls = "m + b" and ?r = "append_unaligned src bits (data, len)"
  define d2 where "d2 = take (1 + o') data @ take f src"
  define loop where "loop = fold (shift_step o' m) [0..<f] (drop_bit (8 - m) (ucast (d2 ! o')), d2)"
  define y where "y = (if 0 < b then push_bit 8 (fst loop) OR ucast (src ! f) else push_bit 8 (fst loop))"
  define data3 where "data3 = (snd loop)[o' + f := ucast (drop_bit m y)]"
  have bb: "bits - f * 8 = b" by (simp add: bits_eq)
  have f: "f \<le> length src" using src bits_eq by linarith
  have lo: "1 + o' \<le> length data" using len len_eq m0 by linarith
  have d2: "length d2 = 1 + o' + f" "d2 ! o' = data ! o'" "k < o' \<Longrightarrow> d2 ! k = data ! k"
    "i < f \<Longrightarrow> d2 ! (o' + i + 1) = src ! i" for k i
    using f lo by (simp_all add: d2_def nth_append)
  have p: "push_raw (take f src) (if ?ls \<le> 8 then f * 8 + b else f * 8) (take (1 + o') data, len) =
      (d2, len + (if ?ls \<le> 8 then f * 8 + b else f * 8))"
  proof -
    have "f \<le> bits_to_bytes (f * 8 + b)" "f \<le> bits_to_bytes (f * 8)" by (simp_all add: bits_to_bytes_def)
    with f show ?thesis by (auto simp: push_raw_def d2_def min_def)
  qed
  have fb: "f * 8 + b = bits" by (simp add: bits_eq)
  have r: "?r =
      (if ?ls \<noteq> 8 then
         if ?ls < 8 then (data3[o' + f := data3 ! (o' + f) AND push_bit (8 - ?ls mod 8) 0xFF], len + bits)
         else (data3 @ [ucast (push_bit (8 - m) y AND ucast (push_bit (8 - ?ls mod 8) (0xFF :: u8)))], len + bits)
       else (data3, len + bits))"
  proof -
    have one: "bits_to_bytes b = 1" if "8 < ?ls" using that m8 b8 by (auto simp: bits_to_bytes_def)
    show ?thesis
      unfolding append_unaligned_def Let_def fst_conv snd_conv fold bb p loop_def [symmetric] y_def [symmetric]
        data3_def [symmetric]
      by (cases "?ls < 8"; cases "?ls = 8") (auto simp: push_raw_def one fb add.assoc)
  qed
  have sl: "(\<forall>j < 8. bit (fst loop) j = carry (data ! o') m src f j) \<and> length (snd loop) = length d2 \<and>
      (\<forall>i < f. \<forall>c < 8. bit (snd loop ! (o' + i)) c =
         (if c + m < 8 then bit (src ! i) (c + m) else carry (data ! o') m src i (c + m - 8))) \<and>
      (\<forall>k < length d2. k < o' \<or> o' + f \<le> k \<longrightarrow> snd loop ! k = d2 ! k)"
    using shift_loop [of m o' f d2 src "data ! o'" f] d2 f m8 by (simp add: loop_def Let_def)
  then have l3: "length data3 = 1 + o' + f" by (simp add: data3_def d2)
  have low: "data3 ! k = data ! k" if "k < o'" for k
    using that sl d2 by (simp add: data3_def)
  have mid: "bit (data3 ! (o' + i)) (7 - t) = merged data len src (8 * i + t)" if "i < f" "t < 8" for i t
  proof -
    have "bit (data3 ! (o' + i)) (7 - t) =
        (if 7 - t + m < 8 then bit (src ! i) (7 - t + m) else carry (data ! o') m src i (7 - t + m - 8))"
      using that sl by (simp add: data3_def)
    also have "\<dots> = merged data len src (8 * i + t)"
    proof (cases "t < m")
      case True
      then have "\<not> 7 - t + m < 8" "7 - t + m - 8 = m - 1 - t" using that(2) by linarith+
      with carry_merged [where len = len, unfolded fold, OF True, of data src i] show ?thesis by (simp only: if_False)
    next
      case False
      then have le: "m \<le> t" by simp
      then have "7 - t + m < 8" using that(2) by linarith
      with src_merged [where len = len, unfolded fold, OF le that(2), of src i data] show ?thesis by (simp only: if_True)
    qed
    finally show ?thesis .
  qed
  have last: "bit (data3 ! (o' + f)) (7 - t) \<longleftrightarrow>
      (t < m \<or> 0 < b) \<and> merged data len src (8 * f + t)" if "t < 8" for t
    using last_byte [where len = len, unfolded fold, OF m0 _ that y_def] sl l3 d2(1) by (simp add: data3_def)
  show "snd ?r = len + bits" by (simp add: r)
  have len_bits: "len + bits = 8 * (o' + f) + ?ls" by (simp add: len_eq bits_eq)
  have ls: "0 < ?ls" "?ls < 16" using m0 m8 b8 by linarith+
  have nb: "bits_to_bytes (len + bits) = o' + f + (if ?ls \<le> 8 then 1 else 2)"
    unfolding len_bits bits_to_bytes_def using ls by (cases "?ls \<le> 8") auto
  then show "length (fst ?r) = bits_to_bytes (len + bits)" by (auto simp: r l3)
  show "fst ?r ! k = data ! k" if "k < len div 8" for k
    using that [unfolded fold] low l3 by (auto simp: r nth_append)
  fix i t :: nat assume t: "t < 8" and i': "len div 8 + i < length (fst ?r)"
  note i = i' [unfolded fold]
  have "bit (fst ?r ! (o' + i)) (7 - t) \<longleftrightarrow> 8 * i + t < m + bits \<and> merged data len src (8 * i + t)"
  proof -
    have bound: "8 * i + t < m + bits \<longleftrightarrow> 8 * i + t < 8 * f + ?ls" by (simp add: bits_eq add_ac)
    have "length (fst ?r) = (if ?ls \<le> 8 then o' + f + 1 else o' + f + 2)" by (auto simp: r l3)
    with i consider "i < f" | "i = f" | "i = Suc f" "8 < ?ls" by (cases "?ls \<le> 8") (simp_all, linarith+)
    then show ?thesis
    proof cases
      case 1
      then have "8 * i + t < 8 * f + ?ls" using t by linarith
      with 1 mid [OF 1 t] bound l3 show ?thesis by (auto simp: r nth_append)
    next
      case 2
      have e: "bit (data3 ! (o' + f)) (7 - t) \<and> t < ?ls \<longleftrightarrow> t < ?ls \<and> merged data len src (8 * f + t)"
        using last [OF t] by auto
      have "bit (fst ?r ! (o' + f)) (7 - t) \<longleftrightarrow> bit (data3 ! (o' + f)) (7 - t) \<and> t < ?ls"
      proof (cases "?ls < 8")
        case True
        with keep_top_bits [of ?ls t "data3 ! (o' + f)"] ls t l3 show ?thesis by (simp add: r)
      next
        case False
        with t l3 show ?thesis by (auto simp: r nth_append)
      qed
      with 2 e bound show ?thesis by simp
    next
      case 3
      then have "0 < b" using m8 by linarith
      moreover from this have "y = push_bit 8 (fst loop) OR ucast (src ! f)" by (simp add: y_def)
      moreover have "8 * Suc f + t < 8 * f + ?ls \<longleftrightarrow> t < ?ls - 8" by (auto simp: less_diff_conv)
      ultimately show ?thesis
        using 3 bound l3 t b8 overflow_byte [where len = len, unfolded fold, of b t "fst loop" src f data]
        by (simp add: r nth_append)
    qed
  qed
  then show "bit (fst ?r ! (len div 8 + i)) (7 - t) \<longleftrightarrow>
      8 * i + t < len mod 8 + bits \<and> merged data len src (8 * i + t)"
    unfolding fold .
qed

section \<open>Builders\<close>

definition wf_builder :: "builder_data \<Rightarrow> bool" where
  "wf_builder b \<longleftrightarrow> bd_length_in_bits b \<le> MAX_DATA_BITS \<and> bd_length_in_bits b \<le> 8 * length (bd_data b) \<and>
    length (bd_references b) \<le> MAX_REFERENCES_COUNT"

definition builder_bits :: "builder_data \<Rightarrow> bool list" where
  "builder_bits b = bits_of (bd_data b) (bd_length_in_bits b)"

lemma length_builder_bits [simp]: "length (builder_bits b) = bd_length_in_bits b"
  by (simp add: builder_bits_def)

lemma append_raw_data_spec:
  assumes "len \<le> 8 * length data" and *: "append_raw_data src bits cap (data, len) = Inr d"
  shows "snd d = len + bits \<and> len + bits \<le> 8 * length (fst d) \<and>
    bits_of (fst d) (len + bits) = bits_of data len @ bits_of src bits"
proof (cases "bits = 0")
  case True
  with assms show ?thesis by (auto simp: append_raw_data_def bits_of_def)
next
  case False
  with * have le: "bits \<le> 8 * length src" by (auto simp: append_raw_data_def split: if_splits)
  have "appended data len src bits d"
  proof (cases "0 < len mod 8")
    case True
    with * False have "d = append_unaligned src bits (data, len)"
      by (auto simp: append_raw_data_def split: if_splits)
    with append_unaligned_appended [OF True assms(1) le] show ?thesis by simp
  next
    case al: False
    with * False have "d = append_aligned src bits (data, len)"
      by (auto simp: append_raw_data_def split: if_splits)
    with append_aligned_appended [OF _ assms(1) le] al False show ?thesis by simp
  qed
  then show ?thesis
    using bits_to_bytes_le [of "len + bits" "length (fst d)"]
    by (auto simp: appended_def intro!: bits_of_append)
qed

text \<open>Appending: the two errors, and the bits of the result.\<close>

lemma append_raw_cases:
  assumes "wf_builder b"
  obtains "0 < bits" "length src * 8 < bits" "append_raw src bits b = Inl (Exception FatalError)"
  | "0 < bits" "bits \<le> length src * 8" "MAX_DATA_BITS < bd_length_in_bits b + bits"
    "append_raw src bits b = Inl (Exception CellOverflow)"
  | b' where "bd_length_in_bits b + bits \<le> MAX_DATA_BITS" "append_raw src bits b = Inr b'" "wf_builder b'"
    "builder_bits b' = builder_bits b @ bits_of src bits" "bd_references b' = bd_references b"
    "bd_cell_type b' = bd_cell_type b" "bd_length_in_bits b' = bd_length_in_bits b + bits"
proof -
  let ?r = "append_raw_data src bits (Some MAX_DATA_BITS) (bd_data b, bd_length_in_bits b)"
  have len: "bd_length_in_bits b \<le> 8 * length (bd_data b)" using assms by (simp add: wf_builder_def)
  consider "0 < bits" "length src * 8 < bits" | "0 < bits" "bits \<le> length src * 8" "MAX_DATA_BITS < bd_length_in_bits b + bits"
    | "bits = 0 \<or> bits \<le> length src * 8 \<and> bd_length_in_bits b + bits \<le> MAX_DATA_BITS" by linarith
  then show thesis
  proof cases
    case 1
    then show ?thesis using that(1) by (simp add: append_raw_def append_raw_data_def)
  next
    case 2
    then show ?thesis using that(2) by (simp add: append_raw_def append_raw_data_def)
  next
    case 3
    then have "\<exists>d. ?r = Inr d" by (auto simp: append_raw_data_def not_less)
    then obtain d where d: "?r = Inr d" ..
    have fit: "bd_length_in_bits b + bits \<le> MAX_DATA_BITS" using 3 assms by (auto simp: wf_builder_def)
    let ?b = "b\<lparr>bd_data := fst d, bd_length_in_bits := snd d\<rparr>"
    show ?thesis
    proof (rule that(3) [OF fit])
      show "append_raw src bits b = Inr ?b" by (simp add: append_raw_def d case_prod_beta)
    qed (use append_raw_data_spec [OF len d] fit assms in \<open>auto simp: wf_builder_def builder_bits_def\<close>)
  qed
qed

lemma bits_of_0 [simp]: "bits_of data 0 = []"
  by (simp add: bits_of_def)

lemma with_raw_spec:
  assumes "len \<le> length data * 8" and "len \<le> MAX_DATA_BITS"
  shows "\<exists>b. with_raw data len = Inr b \<and> builder_bits b = bits_of data len \<and> bd_length_in_bits b = len \<and>
    len \<le> 8 * length (bd_data b) \<and> bd_references b = [] \<and> bd_cell_type b = Ordinary"
proof (cases "len mod 8 = 0")
  case True
  have "bits_of (take (len div 8) data) len = bits_of data len"
    using True by (intro bits_of_eqI getbit_take) auto
  with True assms show ?thesis by (auto simp: with_raw_def Let_def builder_bits_def not_less)
next
  case False
  define o' s where os: "o' = len div 8" "s = len mod 8"
  have len: "len = 8 * o' + s" "s < 8" by (simp_all add: os)
  have lt: "o' < length data" using assms(1) False len by (simp add: os [symmetric])
  define x :: u8 where "x = push_bit (8 - s) (drop_bit (8 - s) (data ! o'))"
  have r: "with_raw data len = Inr \<lparr>bd_data = take o' data @ [x], bd_length_in_bits = len, bd_references = [],
      bd_cell_type = Ordinary\<rparr>"
    using assms False lt last_take_Suc [OF lt] by (auto simp: with_raw_def Let_def os [symmetric] x_def not_less)
  have "bits_of (take o' data @ [x]) len = bits_of data len"
  proof (rule bits_of_eqI)
    fix k assume k: "k < len"
    show "getbit (take o' data @ [x]) k = getbit data k"
    proof (cases "k < 8 * o'")
      case True
      with lt show ?thesis by (simp add: getbit_append getbit_take)
    next
      case False
      define t where "t = k - 8 * o'"
      have t: "k = 8 * o' + t" "t < s" "t < 8" using False k len by (simp_all add: t_def)
      have "8 - s \<le> 7 - t" using t(2) len(2) by linarith
      then have "bit x (7 - t) = bit (data ! o') (7 - t)"
        using t(3) by (auto simp: x_def bit_push_bit_iff bit_drop_bit_eq)
      with getbit_snoc_last [OF t(3), of "take o' data" x] lt t(3) show ?thesis
        unfolding t(1) by (simp add: getbit_def)
    qed
  qed
  with r len lt show ?thesis by (simp add: builder_bits_def)
qed

lemma with_raw_Inr:
  assumes "with_raw data len = Inr b"
  shows "wf_builder b" and "builder_bits b = bits_of data len" and "bd_length_in_bits b = len"
    and "bd_references b = []" and "bd_cell_type b = Ordinary"
proof -
  have le: "len \<le> length data * 8" "len \<le> MAX_DATA_BITS"
    using assms by (auto simp: with_raw_def split: if_splits)
  from with_raw_spec [OF this] assms le
  show "wf_builder b" "builder_bits b = bits_of data len" "bd_length_in_bits b = len"
    "bd_references b = []" "bd_cell_type b = Ordinary"
    by (auto simp: wf_builder_def)
qed

lemma append_raw_Inr:
  assumes "wf_builder b" and "append_raw src bits b = Inr b'"
  shows "wf_builder b'" and "builder_bits b' = builder_bits b @ bits_of src bits"
    and "bd_references b' = bd_references b" and "bd_cell_type b' = bd_cell_type b"
    and "bd_length_in_bits b' = bd_length_in_bits b + bits"
  using append_raw_cases [OF assms(1), of bits src] assms(2) by (metis Inl_Inr_False Inr_inject)+

lemma append_raw_ok:
  assumes "wf_builder b" and "bits \<le> length src * 8" and "bd_length_in_bits b + bits \<le> MAX_DATA_BITS"
  shows "\<exists>b'. append_raw src bits b = Inr b'"
  using append_raw_cases [OF assms(1), of bits src] assms(2,3) by (metis leD)

lemma prepend_raw_Inr:
  assumes "wf_builder b" and "prepend_raw src bits b = Inr b'"
  shows "wf_builder b'" and "builder_bits b' = bits_of src bits @ builder_bits b"
    and "bd_references b' = bd_references b" and "bd_cell_type b' = bd_cell_type b"
proof -
  have "wf_builder b' \<and> builder_bits b' = bits_of src bits @ builder_bits b \<and> bd_references b' = bd_references b \<and>
      bd_cell_type b' = bd_cell_type b"
  proof (cases "bits = 0")
    case True
    with assms show ?thesis by (simp add: prepend_raw_def)
  next
    case False
    with assms(2) obtain c d where c: "with_raw src bits = Inr c" and
        d: "append_raw (bd_data b) (bd_length_in_bits b) c = Inr d" and
        b': "b' = b\<lparr>bd_data := bd_data d, bd_length_in_bits := bd_length_in_bits d\<rparr>"
      by (auto simp: prepend_raw_def split: sum.splits)
    note w = with_raw_Inr [OF c]
    note a = append_raw_Inr [OF w(1) d]
    have "builder_bits b' = builder_bits d" by (simp add: b' builder_bits_def)
    with w a assms(1) show ?thesis by (auto simp: b' wf_builder_def builder_bits_def [of b])
  qed
  then show "wf_builder b'" "builder_bits b' = bits_of src bits @ builder_bits b"
    "bd_references b' = bd_references b" "bd_cell_type b' = bd_cell_type b" by auto
qed

lemma references_free_iff: "wf_builder b \<Longrightarrow> references_free b = MAX_REFERENCES_COUNT - length (bd_references b)"
  by (simp add: wf_builder_def references_free_def usize_sub_def)

lemma append_references_Inr:
  "wf_builder b \<Longrightarrow> append_references cs b = Inr b' \<Longrightarrow>
    wf_builder b' \<and> builder_bits b' = builder_bits b \<and> bd_references b' = bd_references b @ cs \<and>
    bd_cell_type b' = bd_cell_type b"
proof (induction cs arbitrary: b)
  case (Cons c cs)
  then obtain d where d: "checked_append_reference c b = Inr d" "append_references cs d = Inr b'"
    by (auto split: sum.splits)
  then have "d = b\<lparr>bd_references := bd_references b @ [c]\<rparr>" "0 < references_free b"
    by (auto simp: checked_append_reference_def split: if_splits)
  moreover from this Cons.prems(1) have "wf_builder d"
    by (simp add: wf_builder_def references_free_def usize_sub_def)
  ultimately show ?case using Cons.IH [of d] d(2) by (simp add: builder_bits_def)
qed simp

lemma append_builder_Inr:
  assumes "wf_builder b" and "wf_builder x" and "append_builder x b = Inr b'"
  shows "wf_builder b' \<and> builder_bits b' = builder_bits b @ builder_bits x \<and>
    bd_references b' = bd_references b @ bd_references x"
proof (cases "builder_is_empty b")
  case True
  with assms show ?thesis by (auto simp: append_builder_def builder_is_empty_def builder_bits_def)
next
  case False
  with assms(3) obtain d where d: "append_raw (bd_data x) (bd_length_in_bits x) b = Inr d"
      "append_references (bd_references x) d = Inr b'"
    by (auto simp: append_builder_def split: if_splits sum.splits)
  note a = append_raw_Inr [OF assms(1) d(1)]
  with append_references_Inr [OF a(1) d(2)] show ?thesis by (simp add: builder_bits_def [of x])
qed

section \<open>The bounds of a cell\<close>

text \<open>The builders the operations can make.  Two of them take a list of references without counting
  it: \<^verbatim>\<open>with_raw_and_refs\<close> and \<^verbatim>\<open>from_cell\<close>.\<close>

inductive built :: "builder_data \<Rightarrow> bool" where
  new: "built builder_new"
| raw: "with_raw data n = Inr b \<Longrightarrow> built b"
| raw_and_refs: "with_raw_and_refs data n refs = Inr b \<Longrightarrow> length refs \<le> MAX_REFERENCES_COUNT \<Longrightarrow> built b"
| from_bytes: "with_bytes data = Inr b \<Longrightarrow> built b"
| from_bitstring: "with_bitstring data = Inr b \<Longrightarrow> built b"
| from_ref: "built (with_ref c)"
| of_cell: "from_cell c = Inr b \<Longrightarrow> length (cell_references c) \<le> MAX_REFERENCES_COUNT \<Longrightarrow> built b"
| app_raw: "built b \<Longrightarrow> append_raw src n b = Inr b' \<Longrightarrow> built b'"
| prep_raw: "built b \<Longrightarrow> prepend_raw src n b = Inr b' \<Longrightarrow> built b'"
| app_builder: "built b \<Longrightarrow> built x \<Longrightarrow> append_builder x b = Inr b' \<Longrightarrow> built b'"
| app_ref: "built b \<Longrightarrow> checked_append_reference c b = Inr b' \<Longrightarrow> built b'"
| prep_ref: "built b \<Longrightarrow> checked_prepend_reference c b = Inr b' \<Longrightarrow> built b'"
| repl_data: "built b \<Longrightarrow> built (replace_data data n b)"
| repl_ref: "built b \<Longrightarrow> built (replace_reference_cell i c b)"
| set_ty: "built b \<Longrightarrow> built (set_type ct b)"
| truncated: "built b \<Longrightarrow> trunc n b = Inr b' \<Longrightarrow> built b'"

lemma wf_builder_new [simp]: "wf_builder builder_new"
  by (simp add: wf_builder_def builder_new_def)

lemma wf_with_ref: "wf_builder (with_ref c)"
  by (simp add: with_ref_def wf_builder_def builder_new_def layout_sizes)

lemma with_bytes_wf: "with_bytes data = Inr b \<Longrightarrow> wf_builder b"
  by (auto simp: with_bytes_def split: if_splits intro: with_raw_Inr(1))

lemma with_bitstring_wf: "with_bitstring data = Inr b \<Longrightarrow> wf_builder b"
  by (auto simp: with_bitstring_def Let_def split: if_splits intro: with_raw_Inr(1))

lemma from_cell_Inr:
  assumes "from_cell c = Inr b"
  shows "builder_bits b = bits_of (cell_data (cell_buf c)) (bit_len (cell_buf c))"
    and "bd_references b = cell_references c" and "bd_cell_type b = buf_cell_type (cell_buf c)"
    and "length (cell_references c) \<le> MAX_REFERENCES_COUNT \<Longrightarrow> wf_builder b"
proof -
  from assms obtain d where d: "with_raw (cell_data (cell_buf c)) (bit_len (cell_buf c)) = Inr d" and
      b: "b = d\<lparr>bd_references := cell_references c, bd_cell_type := buf_cell_type (cell_buf c)\<rparr>"
    by (auto simp: from_cell_def split: sum.splits)
  from with_raw_Inr [OF d] b
  show "builder_bits b = bits_of (cell_data (cell_buf c)) (bit_len (cell_buf c))"
    "bd_references b = cell_references c" "bd_cell_type b = buf_cell_type (cell_buf c)"
    "length (cell_references c) \<le> MAX_REFERENCES_COUNT \<Longrightarrow> wf_builder b"
    by (simp_all add: builder_bits_def wf_builder_def)
qed

lemma trunc_Inr:
  assumes "wf_builder b" and "trunc n b = Inr b'"
  shows "wf_builder b'" and "builder_bits b' = take n (builder_bits b)"
proof -
  have n: "n \<le> bd_length_in_bits b" and b': "b' = b\<lparr>bd_length_in_bits := n, bd_data := take (1 + n div 8) (bd_data b)\<rparr>"
    using assms(2) by (auto simp: trunc_def split: if_splits)
  have lt: "n < 8 * (1 + n div 8)" using dividend_less_times_div [of 8 n] by (simp add: mult.commute)
  then have "n \<le> 8 * length (take (1 + n div 8) (bd_data b))"
    using assms(1) n by (auto simp: wf_builder_def min_def)
  then show "wf_builder b'" using assms(1) n unfolding b' by (simp add: wf_builder_def)
  have "getbit (take (1 + n div 8) (bd_data b)) k = getbit (bd_data b) k" if "k < n" for k
    using that lt by (intro getbit_take) linarith
  then show "builder_bits b' = take n (builder_bits b)"
    using n by (simp add: b' builder_bits_def bits_of_def take_map)
qed

lemma built_wf: "built b \<Longrightarrow> wf_builder b"
proof (induction rule: built.induct)
  case (raw_and_refs data n refs b)
  then show ?case using with_raw_Inr(1) [of data n]
    by (auto simp: with_raw_and_refs_def wf_builder_def split: sum.splits)
next
  case (app_ref b c b')
  then show ?case
    by (auto simp: checked_append_reference_def wf_builder_def references_free_def usize_sub_def split: if_splits)
next
  case (prep_ref b c b')
  then show ?case
    by (auto simp: checked_prepend_reference_def wf_builder_def references_free_def usize_sub_def split: if_splits)
next
  case (set_ty b ct)
  then show ?case by (simp add: wf_builder_def set_type_def)
next
  case (repl_data b data n)
  then show ?case by (auto simp: wf_builder_def replace_data_def)
next
  case (repl_ref b i c)
  then show ?case by (auto simp: wf_builder_def replace_reference_cell_def)
next
  case (app_builder b x b')
  then show ?case using append_builder_Inr by blast
qed (auto intro: with_raw_Inr(1) with_bytes_wf with_bitstring_wf append_raw_Inr(1) prepend_raw_Inr(1) trunc_Inr(1)
      from_cell_Inr(4) wf_with_ref)

section \<open>Appending integers\<close>

definition word_bits :: "'a::len word \<Rightarrow> nat \<Rightarrow> bool list" where
  "word_bits w n = map (\<lambda>i. bit w (n - 1 - i)) [0..<n]"

lemma bits_of_shifted:
  assumes "8 * n = LENGTH('a)" and "bits \<le> 8 * n"
  shows "bits_of (to_be_bytes n (push_bit (8 * n - bits) (ucast (v :: u64) :: 'a::len word))) bits = word_bits v bits"
proof (rule nth_equalityI)
  fix k assume "k < length (bits_of (to_be_bytes n (push_bit (8 * n - bits) (ucast v :: 'a word))) bits)"
  then have k: "k < bits" by simp
  then have "8 * n - bits \<le> 8 * n - 1 - k" "8 * n - 1 - k - (8 * n - bits) = bits - 1 - k" "8 * n - 1 - k < 8 * n"
    "bits - 1 - k < 8 * n"
    using assms(2) by linarith+
  then show "bits_of (to_be_bytes n (push_bit (8 * n - bits) (ucast v :: 'a word))) bits ! k = word_bits v bits ! k"
    using k assms by (simp add: getbit_to_be_bytes bit_push_bit_iff bit_ucast_iff word_bits_def)
qed (simp add: word_bits_def)

lemma append_bits_eq:
  assumes "0 < bits" and "bits \<le> 63"
  obtains src where "append_bits v bits b = append_raw src bits b" "bits_of src bits = word_bits v bits"
    "bits \<le> length src * 8"
proof -
  consider "bits \<le> 7" | "7 < bits" "bits \<le> 15" | "15 < bits" "bits \<le> 31" | "31 < bits" "bits \<le> 63"
    using assms(2) by linarith
  then show thesis
  proof cases
    case 1
    with assms bits_of_shifted [of 1 bits v, where 'a = 8] show ?thesis
      by (intro that [of "to_be_bytes 1 (push_bit (8 - bits) (ucast v :: 8 word))"]) (simp_all add: append_bits_def)
  next
    case 2
    with assms bits_of_shifted [of 2 bits v, where 'a = 16] show ?thesis
      by (intro that [of "to_be_bytes 2 (push_bit (16 - bits) (ucast v :: 16 word))"]) (simp_all add: append_bits_def)
  next
    case 3
    with assms bits_of_shifted [of 4 bits v, where 'a = 32] show ?thesis
      by (intro that [of "to_be_bytes 4 (push_bit (32 - bits) (ucast v :: 32 word))"]) (simp_all add: append_bits_def)
  next
    case 4
    with assms bits_of_shifted [of 8 bits v, where 'a = 64] show ?thesis
      by (intro that [of "to_be_bytes 8 (push_bit (64 - bits) v)"]) (simp_all add: append_bits_def)
  qed
qed

lemma bits_of_to_be: "8 * n = LENGTH('a) \<Longrightarrow> bits_of (to_be_bytes n (w :: 'a::len word)) (8 * n) = word_bits w (8 * n)"
  by (rule nth_equalityI) (simp_all add: word_bits_def getbit_to_be_bytes)

section \<open>Finalizing an ordinary builder\<close>

definition cell_bits :: "cell \<Rightarrow> bool list" where
  "cell_bits c = bits_of (cell_data (cell_buf c)) (bit_len (cell_buf c))"

lemma is_valid_or: "is_valid_mask a \<Longrightarrow> is_valid_mask b \<Longrightarrow> is_valid_mask (a OR b)"
  by (elim valid_mask_cases) (simp_all add: is_valid_mask_def)

lemma valid_buf_level_mask: "is_valid_mask (mask (buf_level_mask buf))"
  by (simp add: buf_level_mask_def with_mask_def is_valid_mask_def)

lemma children_mask_valid:
  "is_valid_mask (mask lm) \<Longrightarrow>
    is_valid_mask (mask (fold (\<lambda>r lm. LevelMask (mask lm OR mask (buf_level_mask (cell_buf r)))) refs lm))"
  by (induction refs arbitrary: lm) (simp_all add: is_valid_or valid_buf_level_mask)

lemma finalize_ordinary:
  assumes "wf_builder b" and "bd_cell_type b = Ordinary" and "\<And>x. length (sha x) = 32"
    and "\<And>r i. r \<in> set (bd_references b) \<Longrightarrow> snd (cell_hash_depth (cell_buf r) i) + 1 \<le> max_depth"
  shows "\<exists>c. finalize sha max_depth b = Inr c \<and> cell_bits c = builder_bits b \<and>
    bit_len (cell_buf c) = bd_length_in_bits b \<and> cell_references c = bd_references b \<and>
    buf_cell_type (cell_buf c) = Ordinary \<and> refs_count (cell_buf c) = length (bd_references b) \<and>
    bit_len (cell_buf c) \<le> 8 * length (cell_data (cell_buf c))"
proof -
  let ?refs = "bd_references b" and ?n = "bd_length_in_bits b"
  define m where "m = mask (fold (\<lambda>r lm. LevelMask (mask lm OR mask (buf_level_mask (cell_buf r)))) ?refs (with_level 0))"
  let ?td = "take (bits_to_bytes ?n) (append_tag (bd_data b) ?n)"
  have m: "is_valid_mask m" unfolding m_def
    by (rule children_mask_valid) (simp add: with_level_def is_valid_mask_def)
  have n: "?n \<le> 8 * length (bd_data b)" "?n \<le> MAX_DATA_BITS" "length ?refs \<le> 4"
    using assms(1) by (simp_all add: wf_builder_def layout_sizes)
  have n': "?n < 1024" using n(2) by (simp add: layout_sizes)
  note tg = tagged_append_tag [OF n(1)]
  obtain hds where h: "with_data_and_refs sha ([calc_d1 (LevelMask m) False Ordinary (length ?refs), calc_d2 ?n] @ ?td)
      False ?refs (Some max_depth) =
    Inr (Cell ([calc_d1 (LevelMask m) True Ordinary (length ?refs), calc_d2 ?n] @ hds @ ?td) ?refs)"
    "length hds = hash_slots m Ordinary (length ?refs) * 34"
    using with_data_and_refs_ordinary [where sha = sha, OF m n(3,2) tg(1) assms(3) assms(4)] by blast
  define buf where buf: "buf = [calc_d1 (LevelMask m) True Ordinary (length ?refs), calc_d2 ?n] @ hds @ ?td"
  note l = layout_body [OF m n(3) n' tg(1) buf] and hd = layout_head [OF m n(3) n' buf]
  have "finalize sha max_depth b = Inr (Cell buf ?refs)"
    using build_data_plain [OF n(1,2) m n(3)] h(1)
    by (simp add: finalize_def assms(2) Let_def m_def [symmetric] buf)
  moreover have "cell_data buf = ?td" "bit_len buf = ?n" using l h(2) by simp_all
  moreover have "buf_cell_type buf = Ordinary" using hd(4) by (simp add: buf_cell_type_def)
  moreover have "?n \<le> 8 * length ?td"
    using tg(1) bits_to_bytes_le [of ?n "bits_to_bytes ?n"] by (simp add: tagged_def)
  ultimately show ?thesis using tg(2) hd(5) by (simp add: cell_bits_def builder_bits_def)
qed

end
