(* ===== verification/Spec2Isabelle.thy ===== *)
theory Spec2Isabelle
  imports Simplex_Examples Candidate_Book Session_Runtime Builder_Data
begin

text \<open>
  \<^bold>\<open>A verification library for the TON node.\<close>  The node (\<^verbatim>\<open>src/src/\<close>) is a set of Rust crates: the
  Simplex consensus of validator sessions (\<^verbatim>\<open>node/simplex\<close>), the block and cell data structures
  (\<^verbatim>\<open>block\<close>), the virtual machine and executor, the network stack, and the engine that ties them
  together.  The development models the Simplex consensus kernel in full, the components
  around it that the kernel talks to, and the parts of the data layer listed below.

  \<^bold>\<open>The parts and how they interact.\<close>  A session orders slots into leader windows.  Votes, certificates
  and candidates arrive from the network, are checked against the session's keys and are handed
  to the state machine \<^verbatim>\<open>SimplexState\<close>.  The machine counts votes, forms certificates, moves the
  finalised boundary and the progress cursor, propagates the parent each slot may build on,
  casts the node's own votes and emits events that the session pulls.

  \<^bold>\<open>Theories, code and state.\<close>
  \<^item> \<^verbatim>\<open>Prelude\<close>: machine types, saturating arithmetic, the option monad (\<^verbatim>\<open>None\<close> is a panic), hash maps
    as association lists with their specification as a locale.
  \<^item> \<^verbatim>\<open>Shard_Ident\<close> (\<^verbatim>\<open>block/src/shard.rs\<close>), \<^verbatim>\<open>Simplex_Block\<close> (\<^verbatim>\<open>simplex/src/block.rs\<close>), \<^verbatim>\<open>Simplex_Session\<close>
    (\<^verbatim>\<open>lib.rs\<close>, \<^verbatim>\<open>session_description.rs\<close>, \<^verbatim>\<open>utils.rs\<close>): identifiers, candidates, session options with
    their validation, thresholds, leader schedule, clock.
  \<^item> \<^verbatim>\<open>Simplex_Certificate\<close> (\<^verbatim>\<open>certificate.rs\<close>, vote conversions of \<^verbatim>\<open>utils.rs\<close>), \<^verbatim>\<open>Simplex_Votes\<close>
    (\<^verbatim>\<open>SlotVotes\<close>, \<^verbatim>\<open>misbehavior.rs\<close>), \<^verbatim>\<open>Simplex_Slots\<close>, \<^verbatim>\<open>Simplex_Fsm\<close>, \<^verbatim>\<open>Simplex_Ingress\<close>,
    \<^verbatim>\<open>Simplex_Recovery\<close> (\<^verbatim>\<open>simplex_state.rs\<close>): the state machine, one definition per method, its state
    the record \<^verbatim>\<open>simplex_state\<close> with the fields of the struct.  \<^verbatim>\<open>fsm_step\<close> and \<^verbatim>\<open>fsm_run\<close> of
    \<^verbatim>\<open>Simplex_Machine\<close> are the calls a live session makes, in any order, at any clock reading.
  \<^item> \<^verbatim>\<open>Candidate_Book\<close> (\<^verbatim>\<open>candidate_book.rs\<close>) and \<^verbatim>\<open>Session_Runtime\<close> (\<^verbatim>\<open>session_runtime.rs\<close>): the candidate
    store and the runtime context of a session.
  \<^item> \<^verbatim>\<open>Cell_Bits\<close>, \<^verbatim>\<open>Level_Mask\<close>, \<^verbatim>\<open>Cell_Layout\<close> (\<^verbatim>\<open>block/src/cell/mod.rs\<close>): bit strings in bytes with their
    completion tag, level masks, the listing of the hashes of a cell, the layout of a cell's buffer,
    its validation and the computation of its hashes over a hash function given as a parameter.
  \<^item> \<^verbatim>\<open>Builder_Data\<close> (\<^verbatim>\<open>block/src/cell/builder.rs\<close>, \<^verbatim>\<open>builder_operations.rs\<close>): builders, the byte-wise append,
    and finalizing a builder to a cell.
  \<^item> \<^verbatim>\<open>Simplex_Examples\<close>: small sessions on which the properties are exercised.

  \<^bold>\<open>Groups of lemmas.\<close>  \<^verbatim>\<open>Simplex_View\<close> gives each operation its effect on the view of a slot.
  \<^verbatim>\<open>Simplex_Stable\<close> and \<^verbatim>\<open>Simplex_Machine\<close> state, as a chain of locales (\<^verbatim>\<open>voting_stable\<close>,
  \<^verbatim>\<open>propagation_stable\<close>, \<^verbatim>\<open>machine_stable\<close>), the elementary changes an invariant has to survive and derive
  that every operation keeps it; the invariants of the later theories are interpretations:
  exact accounting (\<^verbatim>\<open>Simplex_Accounting\<close>), validity of announced certificates (\<^verbatim>\<open>Simplex_Agreement\<close>),
  voting discipline (\<^verbatim>\<open>Simplex_Discipline\<close>), monotone cursors and timer (\<^verbatim>\<open>Simplex_Live\<close>), published flags
  (\<^verbatim>\<open>Simplex_Liveness\<close>).  \<^verbatim>\<open>Simplex_Chain\<close> and \<^verbatim>\<open>Simplex_Progress\<close> relate the skip intervals to a linear scan
  and carry the base of the progress cursor; \<^verbatim>\<open>Simplex_Live\<close> concludes that no operation panics within
  the horizon.  \<^verbatim>\<open>Simplex_Wire\<close> covers what crosses the network.

  \<^bold>\<open>Bounds and fuel.\<close>  Slots and indices are natural numbers with the saturations of the code written out;
  weights are natural numbers shown to stay at or below the total weight.  The timeout loop is
  \<^verbatim>\<open>while_option\<close> and shown to end.  The fallback scan runs on the limit of the code
  (\<^verbatim>\<open>FIND_NEXT_NONSKIPPED_FALLBACK_LIMIT\<close>, 10000), the parent walk on \<^verbatim>\<open>MAX_CHAIN_DEPTH\<close> (100000); both are
  shown to be enough where the properties need it.  The listing of hashes visits the four
  levels a mask has.

  \<^bold>\<open>Parameters.\<close>  Signature verification, TL serialisation and the multiplication of a duration by a
  floating-point factor are arguments of the definitions that use them.

  \<^bold>\<open>Not modelled.\<close>  Threads, queues, overlays and databases around the session (\<^verbatim>\<open>receiver.rs\<close>,
  \<^verbatim>\<open>session.rs\<close>, \<^verbatim>\<open>database.rs\<close>, telemetry, tracing) are input and output with no logic of their own to
  state; logging and metrics are dropped from the modelled code.  SHA-256, Ed25519 and generated TL
  types are outside the source.  The virtual machine, the executor, collation, validation and the
  network stack are large components of their own and are not part of this development.
\<close>

section \<open>Agreement\<close>

text \<open>C1.  Agreement.  Let two nodes of one session run on signed votes and signed
  certificates, in any order and interleaving, at any clock readings.  If they ever announce
  certificates for conflicting votes of a slot (two blocks finalised or notarised, a
  finalised block against another notarised one, a finalised block against a skip), then
  the validators that signed conflicting votes carry more than a third of the total
  weight.\<close>

theorem agreement:
  assumes "wf_desc desc" and "0 < total_weight desc"
    and "sources desc' = sources desc" and "total_weight desc' = total_weight desc"
    and "\<forall>(t, op) \<in> set ops. valid_op desc auth op"
    and "\<forall>(t, op) \<in> set ops'. valid_op desc' auth op"
    and "e \<in> set (run_outputs desc ops)" and "e' \<in> set (run_outputs desc' ops')"
    and "certified_vote e = Some v" and "certified_vote e' = Some v'" and "conflicting v v'"
  shows "total_weight desc < 3 * sum (get_node_weight desc) (equivocators desc auth)"
proof (rule conflicting_outputs_heavy [OF assms(1,2) _ _ assms(9-11)])
  show "valid_event desc auth e" using assms(5,7) by (rule run_outputs_valid)
  show "valid_event desc auth e'"
    using run_outputs_valid [OF assms(6,8)] valid_event_sources [OF assms(3,4)] by simp
qed

theorem agreement_witness:
  "total_weight (demo_desc 1) < 3 * sum (get_node_weight (demo_desc 1)) (equivocators (demo_desc 1) demo_auth)"
proof -
  let ?ops = "\<lambda>h. [(1, SetFinalizeCertificate 0 h (demo_final 1 0 h))]"
  let ?e = "\<lambda>h. BlockFinalized \<lparr>bfe_slot = 0, bfe_block_hash = h, bfe_block_id = None,
    bfe_certificate = demo_final 1 0 h\<rparr>"
  show ?thesis
  proof (rule agreement [where ops = "?ops (UInt256 5)" and ops' = "?ops (UInt256 6)"
        and desc' = "demo_desc 1" and v = "Finalize \<lparr>fv_slot = 0, fv_block_hash = UInt256 5\<rparr>"
        and v' = "Finalize \<lparr>fv_slot = 0, fv_block_hash = UInt256 6\<rparr>" and e = "?e (UInt256 5)" and e' = "?e (UInt256 6)"])
    show "?e (UInt256 5) \<in> set (run_outputs (demo_desc 1) (?ops (UInt256 5)))" by code_simp
    show "?e (UInt256 6) \<in> set (run_outputs (demo_desc 1) (?ops (UInt256 6)))" by code_simp
  qed (simp_all add: certified_vote_def demo_valid demo_wf)
qed

section \<open>Voting discipline\<close>

text \<open>C2.  Discipline.  Whatever votes, certificates, candidates and clock readings a machine
  is fed, signed or not, no two of the votes it ever casts conflict: it votes for at most
  one block of a slot, finalises only the block it notarised and never both finalises and
  skips a slot.\<close>

theorem voting_discipline:
  assumes "v \<in> set (cast_votes (run_outputs desc ops))"
    and "v' \<in> set (cast_votes (run_outputs desc ops))"
  shows "\<not> conflicting v v'"
proof -
  obtain st0 outs st where "simplex_state_new desc = Some st0"
      "fsm_run desc ops st0 = Some (outs, st)" "run_outputs desc ops = outs @ events st"
    using assms(1) by (auto simp: run_outputs_def split: option.splits)
  then have "disciplined desc ([] @ cast_votes outs) st"
    by (intro disciplined_run disciplined_new)
  with assms \<open>run_outputs desc ops = _\<close> show ?thesis by (simp add: disciplined_def)
qed

theorem voting_discipline_witness:
  "Notarize \<lparr>nv_slot = 0, nv_block_hash = UInt256 5\<rparr> \<in> set (cast_votes (run_outputs (demo_desc 1) demo_votes)) \<and>
   Finalize \<lparr>fv_slot = 0, fv_block_hash = UInt256 5\<rparr> \<in> set (cast_votes (run_outputs (demo_desc 1) demo_votes)) \<and>
   \<not> conflicting (Notarize \<lparr>nv_slot = 0, nv_block_hash = UInt256 5\<rparr>)
      (Finalize \<lparr>fv_slot = 0, fv_block_hash = UInt256 5\<rparr>)"
proof -
  have n: "Notarize \<lparr>nv_slot = 0, nv_block_hash = UInt256 5\<rparr> \<in> set (cast_votes (run_outputs (demo_desc 1) demo_votes))"
    by code_simp
  have f: "Finalize \<lparr>fv_slot = 0, fv_block_hash = UInt256 5\<rparr> \<in> set (cast_votes (run_outputs (demo_desc 1) demo_votes))"
    by code_simp
  from n f voting_discipline [OF n f] show ?thesis by blast
qed

section \<open>No panics\<close>




section \<open>The cursors\<close>

text \<open>C5.  The progress cursor.  In every state a run within the horizon reaches, the slots
  from the finalised boundary up to the cursor are notarised or skipped, the cursor's slot is
  neither and knows the parent to build on, and the current leader window is the cursor's.\<close>

theorem cursor_invariant:
  assumes "simplex_state_new desc = Some st0" and "wf_desc desc" and "0 < total_weight desc"
    and "0 < target_rate (options desc)" and "run_within_horizon desc ops st0"
    and "fsm_run desc ops st0 = Some (outs, st)"
  shows "first_non_finalized_slot st \<le> first_non_progressed_slot st \<and>
    (\<forall>s. first_non_finalized_slot st \<le> s \<and> s < first_non_progressed_slot st \<longrightarrow>
       is_slot_progressed desc st s) \<and>
    \<not> is_slot_progressed desc st (first_non_progressed_slot st) \<and>
    (\<exists>b. get_slot_available_base desc st (first_non_progressed_slot st) = Some b) \<and>
    current_leader_window_idx st = get_window_idx desc (first_non_progressed_slot st)"
  using live_cursor [OF live_reachable [OF assms]] by blast

theorem cursor_invariant_witness:
  "\<exists>b. get_slot_available_base (demo_desc 1) demo_end 1 = Some b"
proof -
  have "first_non_progressed_slot demo_end = 1" by code_simp
  then show ?thesis
    using cursor_invariant [OF demo_new _ _ demo_rate demo_horizon demo_run] by (simp add: demo_wf)
qed

text \<open>C6.  Every operation moves the finalised boundary, the progress cursor and the leader
  window forward or leaves them.\<close>

theorem cursors_monotone:
  assumes "wf_windows desc st" and "fsm_step desc op st = Some (out, st')"
  shows "first_non_finalized_slot st \<le> first_non_finalized_slot st' \<and>
    first_non_progressed_slot st \<le> first_non_progressed_slot st' \<and>
    current_leader_window_idx st \<le> current_leader_window_idx st' \<and> wf_windows desc st'"
  using ahead_step [OF assms] by (simp add: ahead_def)

theorem cursors_monotone_witness:
  "first_non_finalized_slot (demo_state 1) \<le>
     first_non_finalized_slot (snd (the (fsm_step (demo_desc 1)
       (SetFinalizeCertificate 3 (UInt256 5) (demo_final 1 3 (UInt256 5))) (demo_state 1))))"
proof -
  let ?r = "fsm_step (demo_desc 1)
       (SetFinalizeCertificate 3 (UInt256 5) (demo_final 1 3 (UInt256 5))) (demo_state 1)"
  have "?r \<noteq> None" by code_simp
  then have r: "?r = Some (fst (the ?r), snd (the ?r))" by auto
  have "wf_windows (demo_desc 1) (demo_state 1)"
    using accounting_new [OF demo_new] by (simp add: accounting_def)
  from cursors_monotone [OF this r] show ?thesis by simp
qed
section \<open>Vote accounting\<close>



text \<open>C8.  In every reachable state the asserted invariants hold and the weights kept per slot
  are the exact weights of the recorded voters, each counted once, and never exceed the total
  weight of the session.\<close>

theorem weights_exact:
  assumes "simplex_state_new desc = Some st0" and "fsm_run desc ops st0 = Some (outs, st)"
    and "wf_desc desc"
  shows "check_invariants st \<and>
    (let sv = slot_votes_at s st in
       hm_weight (notarize_weight_by_block sv) h = vote_weight desc (notarized_for h) (votes sv) \<and>
       hm_weight (finalize_weight_by_block sv) h = vote_weight desc (finalized_for h) (votes sv) \<and>
       skip_weight sv = vote_weight desc (\<lambda>v. skip v \<noteq> None) (votes sv) \<and>
       notarize_or_skip_weight sv =
         vote_weight desc (\<lambda>v. notarize v \<noteq> None \<or> skip v \<noteq> None) (votes sv) \<and>
       hm_weight (notarize_weight_by_block sv) h \<le> total_weight desc \<and>
       hm_weight (finalize_weight_by_block sv) h \<le> total_weight desc \<and>
       skip_weight sv \<le> total_weight desc \<and> notarize_or_skip_weight sv \<le> total_weight desc)"
proof -
  have a: "accounting desc no_authority False st" by (rule accounting_reachable [OF assms(1,2)])
  then have w: "wf_slot_votes desc no_authority False s (slot_votes_at s st)" by (rule accounting_at)
  then have "vote_weight desc Q (votes (slot_votes_at s st)) \<le> total_weight desc" for Q
    by (intro vote_weight_le_total assms(3)) (simp add: wf_slot_votes_def)
  with w accounting_check_invariants [OF a] show ?thesis
    by (simp add: Let_def wf_slot_votes_def exact_weights_def)
qed

theorem weights_exact_witness:
  "hm_weight (notarize_weight_by_block (slot_votes_at 0 demo_end)) (UInt256 5) \<le> 1"
  using weights_exact [OF demo_new demo_run, of 0 "UInt256 5"] by (simp add: demo_wf Let_def)

text \<open>C9.  Whatever certificate a machine on signed inputs announces, formed from votes or received,
  names distinct validators of the session, carries at least the two-thirds threshold and
  every signature in it is the validator's on that vote.\<close>

theorem announced_certificates_valid:
  assumes "\<forall>(t, op) \<in> set ops. valid_op desc auth op" and "e \<in> set (run_outputs desc ops)"
  shows "valid_event desc auth e"
  using assms by (rule run_outputs_valid)

theorem announced_certificates_valid_witness:
  "valid_event (demo_desc 1) demo_auth
     (BlockFinalized \<lparr>bfe_slot = 0, bfe_block_hash = UInt256 5, bfe_block_id = None,
        bfe_certificate = demo_final 1 0 (UInt256 5)\<rparr>)"
proof (rule announced_certificates_valid)
  let ?ops = "[(1, SetFinalizeCertificate 0 (UInt256 5) (demo_final 1 0 (UInt256 5)))]"
  show "\<forall>(t, op) \<in> set ?ops. valid_op (demo_desc 1) demo_auth op" by simp
  show "BlockFinalized \<lparr>bfe_slot = 0, bfe_block_hash = UInt256 5, bfe_block_id = None,
      bfe_certificate = demo_final 1 0 (UInt256 5)\<rparr> \<in> set (run_outputs (demo_desc 1) ?ops)"
    by code_simp
qed

text \<open>C10.  No quorum is missed: in every reachable state a slot above the finalised boundary
  with two thirds of the weight on a block's notarisation or finalisation has the
  certificate, and one with two thirds on a skip has a skip or a finalisation certificate.\<close>

theorem quorum_noticed:
  assumes "simplex_state_new desc = Some st0" and "0 < total_weight desc"
    and "fsm_run desc ops st0 = Some (outs, st)"
    and "hm_get (simplex_state.slot_votes st) s = Some sv" and "first_non_finalized_slot st \<le> s"
  shows "((h, w) \<in> set (notarize_weight_by_block sv) \<and> get_threshold_66 desc \<le> w \<longrightarrow>
      notarize_certificate sv \<noteq> None) \<and>
    ((h, w) \<in> set (finalize_weight_by_block sv) \<and> get_threshold_66 desc \<le> w \<longrightarrow>
      finalize_certificate sv \<noteq> None) \<and>
    (get_threshold_66 desc \<le> skip_weight sv \<longrightarrow>
      skip_certificate sv \<noteq> None \<or> finalize_certificate sv \<noteq> None)"
  using noticed_run [OF assms(1-3)] assms(4,5) by (auto simp: noticed_def noticed_slot_def)

theorem quorum_noticed_witness:
  "notarize_certificate (the (hm_get (simplex_state.slot_votes demo_end) 0)) \<noteq> None"
proof -
  let ?sv = "the (hm_get (simplex_state.slot_votes demo_end) 0)"
  have "hm_get (simplex_state.slot_votes demo_end) 0 \<noteq> None" by code_simp
  then have sv: "hm_get (simplex_state.slot_votes demo_end) 0 = Some ?sv" by auto
  have "(UInt256 5, 1) \<in> set (notarize_weight_by_block ?sv)" by code_simp
  moreover have "get_threshold_66 (demo_desc 1) \<le> 1" by code_simp
  moreover have "first_non_finalized_slot demo_end \<le> 0" by code_simp
  ultimately show ?thesis
    using quorum_noticed [OF demo_new _ demo_run sv, of "UInt256 5" 1] by (simp add: demo_wf)
qed

section \<open>Skip intervals and timeouts\<close>

text \<open>C11.  The skip-interval search is a scan: in every state a run within the horizon reaches,
  \<^verbatim>\<open>find_next_nonskipped_slot\<close> returns the first slot after the given one that has no skip
  certificate, changes nothing and agrees with the slot-by-slot fallback scan.\<close>

theorem find_next_is_scan:
  assumes "simplex_state_new desc = Some st0" and "wf_desc desc" and "0 < total_weight desc"
    and "0 < target_rate (options desc)" and "run_within_horizon desc ops st0"
    and "fsm_run desc ops st0 = Some (outs, st)" and "first_non_finalized_slot st \<le> s + 1"
  shows "\<exists>t. find_next_nonskipped_slot desc s BoundedByHorizon st = (Some t, st) \<and> s < t \<and>
    \<not> is_slot_skipped_cert desc st t \<and> (\<forall>u. s < u \<and> u < t \<longrightarrow> is_slot_skipped_cert desc st u) \<and>
    (\<forall>k > t. fallback_scan_first_non_skipped desc (s + 1) BoundedByHorizon k st = (Some t, st))"
  by (rule find_next_scan [OF live_reachable [OF assms(1-6)] assms(7)])

theorem find_next_is_scan_witness:
  "\<exists>t. find_next_nonskipped_slot (demo_desc 1) 0 BoundedByHorizon demo_end = (Some t, demo_end) \<and> 0 < t"
proof -
  have "first_non_finalized_slot demo_end \<le> 0 + 1" by code_simp
  from find_next_is_scan [OF demo_new _ _ demo_rate demo_horizon demo_run this] show ?thesis
    by (auto simp: demo_wf)
qed

text \<open>C12.  An expired timer gives its window up: when the deadline of a tracked slot that the
  node neither finalised nor skipped has passed, \<^verbatim>\<open>process_timeouts\<close> returns, the timer is
  disarmed, a skip vote for the slot is queued and every slot of its window carries a
  finalisation or a skip vote of the node.\<close>

theorem timeout_gives_up_window:
  assumes "wf_windows desc st" and "skip_timestamp st = Some ts" and "ts \<le> get_time desc"
    and "first_non_finalized_slot st \<le> skip_slot st"
    and "has_window st (get_window_idx desc (skip_slot st))"
    and "\<not> voted_final (slot_view desc st (skip_slot st))"
    and "\<not> voted_skip (slot_view desc st (skip_slot st))"
  shows "\<exists>st'. process_timeouts desc st = Some st' \<and> skip_timestamp st' = None \<and>
    timeout_base st' = None \<and>
    (\<forall>i < slots_per_window desc.
       voted_final (slot_view desc st' (get_window_idx desc (skip_slot st) * slots_per_window desc + i)) \<or>
       voted_skip (slot_view desc st' (get_window_idx desc (skip_slot st) * slots_per_window desc + i))) \<and>
    BroadcastVote (Skip \<lparr>sv_slot = skip_slot st\<rparr>) \<in> set (events st')"
  using assms by (rule timeout_skips_window)

theorem timeout_gives_up_window_witness:
  "\<exists>st'. process_timeouts (at_time 100000000000 (demo_desc 1)) (reset_timeouts_on_start (demo_desc 1) (demo_state 1)) = Some st' \<and>
     BroadcastVote (Skip \<lparr>sv_slot = 0\<rparr>) \<in> set (events st')"
proof -
  let ?st = "reset_timeouts_on_start (demo_desc 1) (demo_state 1)"
  let ?d = "at_time 100000000000 (demo_desc 1)"
  have "wf_windows (demo_desc 1) (demo_state 1)"
    using accounting_new [OF demo_new] by (simp add: accounting_def)
  then have 1: "wf_windows ?d ?st"
    using wf.P_fsm_step [of "demo_desc 1" "demo_state 1" ResetTimeoutsOnStart "[]" ?st no_authority]
    by (simp add: fsm_step_def)
  have "skip_timestamp ?st \<noteq> None" by code_simp
  then obtain ts where 2: "skip_timestamp ?st = Some ts" by blast
  have "the (skip_timestamp ?st) \<le> get_time ?d" by code_simp
  with 2 have 3: "ts \<le> get_time ?d" by simp
  have 4: "first_non_finalized_slot ?st \<le> skip_slot ?st" by code_simp
  have 5: "has_window ?st (get_window_idx ?d (skip_slot ?st))" by code_simp
  have 6: "\<not> voted_final (slot_view ?d ?st (skip_slot ?st))" by code_simp
  have 7: "\<not> voted_skip (slot_view ?d ?st (skip_slot ?st))" by code_simp
  have "skip_slot ?st = 0" by code_simp
  with timeout_gives_up_window [OF 1 2 3 4 5 6 7] show ?thesis by auto
qed

section \<open>Votes and certificates on the wire\<close>

text \<open>C13.  A vote whose slot fits a signed 32-bit field survives the wire; a larger slot is
  rejected on receipt rather than read as another slot.\<close>

theorem vote_wire_round_trip:
  assumes "vote_slot v < 2 ^ 32"
  shows "tl_unsigned_to_vote (vote_to_tl_unsigned v) = (if vote_slot v < 2 ^ 31 then Some v else None)"
  using assms vote_round_trip [of v] large_slot_rejected [of v] by simp

theorem vote_wire_round_trip_witness:
  "tl_unsigned_to_vote (vote_to_tl_unsigned (Skip \<lparr>sv_slot = 2 ^ 31\<rparr>)) = None"
  using vote_wire_round_trip [of "Skip \<lparr>sv_slot = 2 ^ 31\<rparr>"] by (simp add: vote_slot_def)

text \<open>C14.  \<^verbatim>\<open>Certificate::from_tl\<close> accepts exactly the certificates whose vote parses, whose
  signers are distinct validators of the session with at least two thirds of its weight and
  whose signatures all verify on the session-bound wire form of that vote.\<close>

theorem certificate_accepted_iff:
  assumes "i32_vote (tl_cert_vote t)"
  shows "certificate_from_tl verify ser data desc sid t = Inr c \<longleftrightarrow>
    tl_unsigned_to_vote (tl_cert_vote t) = Some (cert_vote c) \<and>
    cert_signatures c = map vote_signature_from_tl (tl_cert_signatures t) \<and>
    valid_cert desc (session_authority verify ser data desc sid) (cert_vote c) (cert_vote c) c"
  by (rule certificate_from_tl_iff [OF assms])

theorem certificate_accepted_iff_witness:
  "valid_cert (demo_desc 1) (session_authority (\<lambda>key msg sig. key = sig) (\<lambda>_. []) (\<lambda>_ _. []) (demo_desc 1) (UInt256 7))
     (Skip \<lparr>sv_slot = 3\<rparr>) (Skip \<lparr>sv_slot = 3\<rparr>) \<lparr>cert_vote = Skip \<lparr>sv_slot = 3\<rparr>, cert_signatures = demo_signatures 1\<rparr>"
proof -
  let ?t = "\<lparr>tl_cert_vote = TlSkipVote 3, tl_cert_signatures = [\<lparr>tl_who = 0, tl_signature = [0]\<rparr>]\<rparr>"
  have "certificate_from_tl (\<lambda>key msg sig. key = sig) (\<lambda>_. []) (\<lambda>_ _. []) (demo_desc 1) (UInt256 7) ?t =
      Inr \<lparr>cert_vote = Skip \<lparr>sv_slot = 3\<rparr>, cert_signatures = demo_signatures 1\<rparr>"
    by code_simp
  moreover have "i32_vote (tl_cert_vote ?t)" by (simp add: i32_vote_def)
  ultimately show ?thesis using certificate_accepted_iff [of ?t] by fastforce
qed

text \<open>C15.  A valid certificate survives the wire: what \<^verbatim>\<open>to_tl\<close> writes for any kind of vote,
  \<^verbatim>\<open>from_tl\<close> reads back and accepts, in sessions of at most 2 to the 32 validators and for
  slots that fit a signed 32-bit field.\<close>

theorem certificate_wire_round_trip:
  assumes "valid_cert desc (session_authority verify ser data desc sid) (to_vote (cert_vote c)) (cert_vote c) c"
    and "get_total_nodes desc \<le> 2 ^ 32" and "vote_slot (to_vote (cert_vote c)) < 2 ^ 31"
  shows "certificate_from_tl verify ser data desc sid (certificate_to_tl to_vote c) =
    Inr \<lparr>cert_vote = to_vote (cert_vote c), cert_signatures = cert_signatures c\<rparr>"
  using assms by (rule certificate_round_trip [of desc verify ser data sid to_vote c])

theorem certificate_wire_round_trip_witness:
  "certificate_from_tl (\<lambda>key msg sig. True) (\<lambda>_. []) (\<lambda>_ _. []) (demo_desc 1) (UInt256 7)
     (certificate_to_tl Skip (demo_skip 1 3)) =
   Inr \<lparr>cert_vote = Skip \<lparr>sv_slot = 3\<rparr>, cert_signatures = demo_signatures 1\<rparr>"
proof -
  have "valid_cert (demo_desc 1) demo_auth (Skip \<lparr>sv_slot = 3\<rparr>) \<lparr>sv_slot = 3\<rparr> (demo_skip 1 3)"
    by (rule demo_valid_cert) (simp_all add: demo_skip_def)
  then have "valid_cert (demo_desc 1)
      (session_authority (\<lambda>key msg sig. True) (\<lambda>_. []) (\<lambda>_ _. []) (demo_desc 1) (UInt256 7))
      (Skip (cert_vote (demo_skip 1 3))) (cert_vote (demo_skip 1 3)) (demo_skip 1 3)"
    by (simp add: valid_cert_def session_authority_def demo_skip_def)
  from certificate_wire_round_trip [where to_vote = Skip and c = "demo_skip 1 3", OF this] show ?thesis
    by (simp add: demo_skip_def vote_slot_def get_total_nodes_def demo_desc_def)
qed

section \<open>The candidate store\<close>



section \<open>Hashes of a cell\<close>

text \<open>C17.  For every level mask but \<open>101\<close>, listing the hashes of a cell that stores one hash per set
  bit of its mask and one more gives back exactly the stored hashes, in order.\<close>

theorem hashes_listed:
  assumes "is_valid_mask m" and "m \<noteq> 5" and "length stored = level (LevelMask m) + 1"
  shows "cell_hashes (LevelMask m) stored = Some stored"
  using assms by (rule cell_hashes_stored)

theorem hashes_listed_witness: "cell_hashes (LevelMask 6) [1, 2, 3 :: nat] = Some [1, 2, 3]"
  using hashes_listed [of 6 "[1, 2, 3 :: nat]"] by (simp add: is_valid_mask_def level_eval)


section \<open>Building cells\<close>







text \<open>C22.  The buffer that \<^verbatim>\<open>build_data\<close> writes for tagged data says what was put in: the accessors read
  back the bit length, the bits, the reference count, the level mask and whether the cell is exotic,
  and the buffer has the length it announces.\<close>

theorem layout_round_trip:
  assumes "bits \<le> 8 * length data" and "bits \<le> MAX_DATA_BITS" and "is_valid_mask m" and "n \<le> 4"
  shows "\<exists>buf. build_data (append_tag data bits) ct m n None = Inr buf \<and> bit_len buf = bits \<and>
    bits_of (cell_data buf) bits = bits_of data bits \<and> refs_count buf = n \<and> buf_level_mask buf = LevelMask m \<and>
    (exotic buf \<longleftrightarrow> ct \<noteq> Ordinary) \<and> full_len buf = length buf"
proof -
  have b: "bits < 1024" using assms(2) by (simp add: layout_sizes)
  define buf where buf: "buf = [calc_d1 (LevelMask m) False ct n, calc_d2 bits] @ [] @
    take (bits_to_bytes bits) (append_tag data bits)"
  note tg = tagged_append_tag [OF assms(1)]
  from layout_head [OF assms(3,4) b buf] layout_body [OF assms(3,4) b tg(1) buf] tg(2) build_data_plain [OF assms]
  show ?thesis by (simp add: buf)
qed

theorem layout_round_trip_witness:
  "\<exists>buf. build_data (append_tag [0xAB, 0xC0] 10) MerkleProof 1 2 None = Inr buf \<and> bit_len buf = 10 \<and> refs_count buf = 2"
proof -
  have "\<exists>buf. build_data (append_tag [0xAB, 0xC0] 10) MerkleProof 1 2 None = Inr buf \<and> bit_len buf = 10 \<and>
      bits_of (cell_data buf) 10 = bits_of [0xAB, 0xC0] 10 \<and> refs_count buf = 2 \<and>
      buf_level_mask buf = LevelMask 1 \<and> (exotic buf \<longleftrightarrow> MerkleProof \<noteq> Ordinary) \<and> full_len buf = length buf"
    by (rule layout_round_trip) (simp_all add: layout_sizes is_valid_mask_def)
  then show ?thesis by blast
qed

end
